theory Spec2Isabelle
  imports Complex_Main "HOL-Library.Word" "HOL-Library.Log_Nat"
begin

section \<open>Numbers\<close>

text \<open>
  The codec computes on JavaScript numbers, which are binary64 floating-point values.
  Two readings of the arithmetic are used. The first one, in this and the following
  sections, takes every number as a real and every operation as exact; it follows the
  formulas of the source and is used for the properties that rest on the guards, the
  comparisons and the flow of data alone (the degenerate axis, the packed buffer, the
  order of a list), on which rounding has no bearing. The second one, in the sections on
  binary64 below, rounds every operation to the nearest double, with overflow to an
  infinity and NaN; the properties of the numeric results are stated and proved there.
  \<open>Math.floor\<close>, \<open>Math.max\<close> and \<open>Math.min\<close> are the functions of the same name on the
  reals.
\<close>

definition Math_floor :: "real \<Rightarrow> real" where
  "Math_floor v = of_int \<lfloor>v\<rfloor>"

section \<open>Quantization functions\<close>

definition rangeScale :: real where
  "rangeScale = 65535"

definition computeScale :: "real \<Rightarrow> real" where
  "computeScale extent = (if 0 = extent then extent else rangeScale / extent)"

definition isInRange :: "real \<Rightarrow> bool" where
  "isInRange qpos = (qpos \<ge> 0 \<and> qpos < rangeScale + 1)"

definition quantize :: "real \<Rightarrow> real \<Rightarrow> real \<Rightarrow> real" where
  "quantize pos origin scale =
     Math_floor (max 0 (min rangeScale (0.5 + (pos - origin) * scale)))"

definition isQuantizable :: "real \<Rightarrow> real \<Rightarrow> real \<Rightarrow> bool" where
  "isQuantizable pos origin scale = isInRange (quantize pos origin scale)"

definition unquantize :: "real \<Rightarrow> real \<Rightarrow> real \<Rightarrow> real" where
  "unquantize qpos origin scale = (if 0 = scale then origin else origin + qpos / scale)"

definition isQuantized :: "real \<Rightarrow> bool" where
  "isQuantized qpos = (isInRange qpos \<and> qpos = Math_floor qpos)"

section \<open>Collaborators from outside the codec\<close>

text \<open>
  Modelled from the spec: the point classes \<open>Point2d\<close> and \<open>Point3d\<close> are missing from
  the sources. A point holds one float per axis, and a newly constructed point is the
  zero/default point.
\<close>

record Point2d =
  x2d :: real
  y2d :: real

record Point3d =
  x3d :: real
  y3d :: real
  z3d :: real

definition Point2d_new :: Point2d where
  "Point2d_new = \<lparr>x2d = 0, y2d = 0\<rparr>"

definition Point3d_new :: Point3d where
  "Point3d_new = \<lparr>x3d = 0, y3d = 0, z3d = 0\<rparr>"

text \<open>
  Modelled from the spec: the range classes are missing from the sources. The input
  contract gives a range as two corner points (low, high) and an explicit flag that tells
  an empty range from a measurable one.
\<close>

record Range2d =
  low2d :: Point2d
  high2d :: Point2d
  isNull2d :: bool

record Range3d =
  low3d :: Point3d
  high3d :: Point3d
  isNull3d :: bool

datatype error = AssertionFailed | TypeError

text \<open>
  Modelled from the spec: \<open>assert\<close> is missing from the sources. A failed assertion is
  fatal in a build that checks assertions (\<open>chk\<close>) and does nothing in one that compiles
  them out.
\<close>

definition assert :: "bool \<Rightarrow> bool \<Rightarrow> error + unit" where
  "assert chk cond = (if chk \<and> \<not> cond then Inl AssertionFailed else Inr ())"

text \<open>Sequencing of statements that may throw: the first error ends the method.\<close>

definition andThen :: "error + 'a \<Rightarrow> ('a \<Rightarrow> error + 'b) \<Rightarrow> error + 'b" where
  "andThen m f = (case m of Inl e \<Rightarrow> Inl e | Inr v \<Rightarrow> f v)"

section \<open>Range-parameter records\<close>

record QParams2d =
  origin2d :: Point2d
  scale2d :: Point2d

definition QParams2d_setFrom :: "real \<Rightarrow> real \<Rightarrow> real \<Rightarrow> real \<Rightarrow> QParams2d \<Rightarrow> QParams2d" where
  "QParams2d_setFrom ox oy sx sy this =
     this\<lparr>origin2d := (origin2d this)\<lparr>x2d := ox, y2d := oy\<rparr>,
          scale2d := (scale2d this)\<lparr>x2d := sx, y2d := sy\<rparr>\<rparr>"

definition QParams2d_new :: QParams2d where
  "QParams2d_new =
     QParams2d_setFrom 0 0 0 0 \<lparr>origin2d = Point2d_new, scale2d = Point2d_new\<rparr>"

definition QParams2d_copyFrom :: "QParams2d \<Rightarrow> QParams2d \<Rightarrow> QParams2d" where
  "QParams2d_copyFrom src this =
     QParams2d_setFrom (x2d (origin2d src)) (y2d (origin2d src))
       (x2d (scale2d src)) (y2d (scale2d src)) this"

definition QParams2d_clone :: "QParams2d option \<Rightarrow> QParams2d \<Rightarrow> QParams2d" where
  "QParams2d_clone out this =
     QParams2d_copyFrom this (case out of Some r \<Rightarrow> r | None \<Rightarrow> QParams2d_new)"

definition QParams2d_setFromRange :: "Range2d \<Rightarrow> QParams2d \<Rightarrow> QParams2d" where
  "QParams2d_setFromRange rng this =
     (if \<not> isNull2d rng then
        QParams2d_setFrom (x2d (low2d rng)) (y2d (low2d rng))
          (computeScale (x2d (high2d rng) - x2d (low2d rng)))
          (computeScale (y2d (high2d rng) - y2d (low2d rng))) this
      else
        this\<lparr>origin2d := (origin2d this)\<lparr>x2d := 0, y2d := 0\<rparr>,
             scale2d := (scale2d this)\<lparr>x2d := 0, y2d := 0\<rparr>\<rparr>)"

definition QParams2d_fromRange :: "Range2d \<Rightarrow> QParams2d option \<Rightarrow> QParams2d" where
  "QParams2d_fromRange rng out =
     QParams2d_setFromRange rng (case out of Some r \<Rightarrow> r | None \<Rightarrow> QParams2d_new)"

record QParams3d =
  origin3d :: Point3d
  scale3d :: Point3d

definition QParams3d_setFrom ::
  "real \<Rightarrow> real \<Rightarrow> real \<Rightarrow> real \<Rightarrow> real \<Rightarrow> real \<Rightarrow> QParams3d \<Rightarrow> QParams3d" where
  "QParams3d_setFrom ox oy oz sx sy sz this =
     this\<lparr>origin3d := (origin3d this)\<lparr>x3d := ox, y3d := oy, z3d := oz\<rparr>,
          scale3d := (scale3d this)\<lparr>x3d := sx, y3d := sy, z3d := sz\<rparr>\<rparr>"

definition QParams3d_new :: QParams3d where
  "QParams3d_new =
     QParams3d_setFrom 0 0 0 0 0 0 \<lparr>origin3d = Point3d_new, scale3d = Point3d_new\<rparr>"

definition QParams3d_copyFrom :: "QParams3d \<Rightarrow> QParams3d \<Rightarrow> QParams3d" where
  "QParams3d_copyFrom src this =
     QParams3d_setFrom (x3d (origin3d src)) (y3d (origin3d src)) (z3d (origin3d src))
       (x3d (scale3d src)) (y3d (scale3d src)) (z3d (scale3d src)) this"

definition QParams3d_clone :: "QParams3d option \<Rightarrow> QParams3d \<Rightarrow> QParams3d" where
  "QParams3d_clone out this =
     QParams3d_copyFrom this (case out of Some r \<Rightarrow> r | None \<Rightarrow> QParams3d_new)"

definition QParams3d_setFromRange :: "Range3d \<Rightarrow> QParams3d \<Rightarrow> QParams3d" where
  "QParams3d_setFromRange rng this =
     (if \<not> isNull3d rng then
        QParams3d_setFrom (x3d (low3d rng)) (y3d (low3d rng)) (z3d (low3d rng))
          (computeScale (x3d (high3d rng) - x3d (low3d rng)))
          (computeScale (y3d (high3d rng) - y3d (low3d rng)))
          (computeScale (z3d (high3d rng) - z3d (low3d rng))) this
      else
        this\<lparr>origin3d := (origin3d this)\<lparr>x3d := 0, y3d := 0, z3d := 0\<rparr>,
             scale3d := (scale3d this)\<lparr>x3d := 0, y3d := 0, z3d := 0\<rparr>\<rparr>)"

definition QParams3d_fromRange :: "Range3d \<Rightarrow> QParams3d option \<Rightarrow> QParams3d" where
  "QParams3d_fromRange rng out =
     QParams3d_setFromRange rng (case out of Some r \<Rightarrow> r | None \<Rightarrow> QParams3d_new)"

text \<open>
  The two canonical presets. \<open>Range2d.createArray\<close> and \<open>Range3d.createArray\<close> of two
  points give the range with these points as corners, which is not null.
\<close>

definition QParams2d_fromNormalizedRange :: QParams2d where
  "QParams2d_fromNormalizedRange =
     QParams2d_fromRange
       \<lparr>low2d = \<lparr>x2d = - 1, y2d = - 1\<rparr>, high2d = \<lparr>x2d = 1, y2d = 1\<rparr>, isNull2d = False\<rparr> None"

definition QParams2d_fromZeroToOne :: QParams2d where
  "QParams2d_fromZeroToOne =
     QParams2d_fromRange
       \<lparr>low2d = \<lparr>x2d = 0, y2d = 0\<rparr>, high2d = \<lparr>x2d = 1, y2d = 1\<rparr>, isNull2d = False\<rparr> None"

definition QParams3d_fromNormalizedRange :: QParams3d where
  "QParams3d_fromNormalizedRange =
     QParams3d_fromRange
       \<lparr>low3d = \<lparr>x3d = - 1, y3d = - 1, z3d = - 1\<rparr>, high3d = \<lparr>x3d = 1, y3d = 1, z3d = 1\<rparr>,
        isNull3d = False\<rparr> None"

definition QParams3d_fromZeroToOne :: QParams3d where
  "QParams3d_fromZeroToOne =
     QParams3d_fromRange
       \<lparr>low3d = \<lparr>x3d = 0, y3d = 0, z3d = 0\<rparr>, high3d = \<lparr>x3d = 1, y3d = 1, z3d = 1\<rparr>,
        isNull3d = False\<rparr> None"

section \<open>Quantized points\<close>

text \<open>
  The private fields \<open>_x\<close>, \<open>_y\<close>, \<open>_z\<close> are the record's fields; every write goes
  through a setter, which asserts \<open>isQuantized\<close> before it stores the value.
\<close>

record QPoint2d =
  qx2d :: real
  qy2d :: real

definition QPoint2d_new :: QPoint2d where
  "QPoint2d_new = \<lparr>qx2d = 0, qy2d = 0\<rparr>"

definition QPoint2d_set_x :: "bool \<Rightarrow> real \<Rightarrow> QPoint2d \<Rightarrow> error + QPoint2d" where
  "QPoint2d_set_x chk v this =
     andThen (assert chk (isQuantized v)) (\<lambda>_. Inr (this\<lparr>qx2d := v\<rparr>))"

definition QPoint2d_set_y :: "bool \<Rightarrow> real \<Rightarrow> QPoint2d \<Rightarrow> error + QPoint2d" where
  "QPoint2d_set_y chk v this =
     andThen (assert chk (isQuantized v)) (\<lambda>_. Inr (this\<lparr>qy2d := v\<rparr>))"

definition QPoint2d_init :: "bool \<Rightarrow> Point2d \<Rightarrow> QParams2d \<Rightarrow> QPoint2d \<Rightarrow> error + QPoint2d" where
  "QPoint2d_init chk pos params this =
     andThen (QPoint2d_set_x chk
                (quantize (x2d pos) (x2d (origin2d params)) (x2d (scale2d params))) this)
       (QPoint2d_set_y chk
          (quantize (y2d pos) (y2d (origin2d params)) (y2d (scale2d params))))"

definition QPoint2d_create :: "bool \<Rightarrow> Point2d \<Rightarrow> QParams2d \<Rightarrow> error + QPoint2d" where
  "QPoint2d_create chk pos params = QPoint2d_init chk pos params QPoint2d_new"

definition QPoint2d_copyFrom :: "bool \<Rightarrow> QPoint2d \<Rightarrow> QPoint2d \<Rightarrow> error + QPoint2d" where
  "QPoint2d_copyFrom chk src this =
     andThen (QPoint2d_set_x chk (qx2d src) this) (QPoint2d_set_y chk (qy2d src))"

definition QPoint2d_clone :: "bool \<Rightarrow> QPoint2d option \<Rightarrow> QPoint2d \<Rightarrow> error + QPoint2d" where
  "QPoint2d_clone chk out this =
     QPoint2d_copyFrom chk this (case out of Some r \<Rightarrow> r | None \<Rightarrow> QPoint2d_new)"

definition QPoint2d_setFromScalars :: "bool \<Rightarrow> real \<Rightarrow> real \<Rightarrow> QPoint2d \<Rightarrow> error + QPoint2d" where
  "QPoint2d_setFromScalars chk x y this =
     andThen (QPoint2d_set_x chk x this) (QPoint2d_set_y chk y)"

definition QPoint2d_fromScalars :: "bool \<Rightarrow> real \<Rightarrow> real \<Rightarrow> error + QPoint2d" where
  "QPoint2d_fromScalars chk x y = QPoint2d_setFromScalars chk x y QPoint2d_new"

definition QPoint2d_unquantize :: "QParams2d \<Rightarrow> Point2d option \<Rightarrow> QPoint2d \<Rightarrow> Point2d" where
  "QPoint2d_unquantize params out this =
     (case out of Some r \<Rightarrow> r | None \<Rightarrow> Point2d_new)
       \<lparr>x2d := unquantize (qx2d this) (x2d (origin2d params)) (x2d (scale2d params)),
        y2d := unquantize (qy2d this) (y2d (origin2d params)) (y2d (scale2d params))\<rparr>"

record QPoint3d =
  qx3d :: real
  qy3d :: real
  qz3d :: real

definition QPoint3d_new :: QPoint3d where
  "QPoint3d_new = \<lparr>qx3d = 0, qy3d = 0, qz3d = 0\<rparr>"

definition QPoint3d_set_x :: "bool \<Rightarrow> real \<Rightarrow> QPoint3d \<Rightarrow> error + QPoint3d" where
  "QPoint3d_set_x chk v this =
     andThen (assert chk (isQuantized v)) (\<lambda>_. Inr (this\<lparr>qx3d := v\<rparr>))"

definition QPoint3d_set_y :: "bool \<Rightarrow> real \<Rightarrow> QPoint3d \<Rightarrow> error + QPoint3d" where
  "QPoint3d_set_y chk v this =
     andThen (assert chk (isQuantized v)) (\<lambda>_. Inr (this\<lparr>qy3d := v\<rparr>))"

definition QPoint3d_set_z :: "bool \<Rightarrow> real \<Rightarrow> QPoint3d \<Rightarrow> error + QPoint3d" where
  "QPoint3d_set_z chk v this =
     andThen (assert chk (isQuantized v)) (\<lambda>_. Inr (this\<lparr>qz3d := v\<rparr>))"

definition QPoint3d_init :: "bool \<Rightarrow> Point3d \<Rightarrow> QParams3d \<Rightarrow> QPoint3d \<Rightarrow> error + QPoint3d" where
  "QPoint3d_init chk pos params this =
     andThen (QPoint3d_set_x chk
                (quantize (x3d pos) (x3d (origin3d params)) (x3d (scale3d params))) this)
       (\<lambda>p. andThen (QPoint3d_set_y chk
                (quantize (y3d pos) (y3d (origin3d params)) (y3d (scale3d params))) p)
          (QPoint3d_set_z chk
             (quantize (z3d pos) (z3d (origin3d params)) (z3d (scale3d params)))))"

definition QPoint3d_create :: "bool \<Rightarrow> Point3d \<Rightarrow> QParams3d \<Rightarrow> error + QPoint3d" where
  "QPoint3d_create chk pos params = QPoint3d_init chk pos params QPoint3d_new"

definition QPoint3d_copyFrom :: "bool \<Rightarrow> QPoint3d \<Rightarrow> QPoint3d \<Rightarrow> error + QPoint3d" where
  "QPoint3d_copyFrom chk src this =
     andThen (QPoint3d_set_x chk (qx3d src) this)
       (\<lambda>p. andThen (QPoint3d_set_y chk (qy3d src) p) (QPoint3d_set_z chk (qz3d src)))"

definition QPoint3d_clone :: "bool \<Rightarrow> QPoint3d option \<Rightarrow> QPoint3d \<Rightarrow> error + QPoint3d" where
  "QPoint3d_clone chk out this =
     QPoint3d_copyFrom chk this (case out of Some r \<Rightarrow> r | None \<Rightarrow> QPoint3d_new)"

definition QPoint3d_setFromScalars ::
  "bool \<Rightarrow> real \<Rightarrow> real \<Rightarrow> real \<Rightarrow> QPoint3d \<Rightarrow> error + QPoint3d" where
  "QPoint3d_setFromScalars chk x y z this =
     andThen (QPoint3d_set_x chk x this)
       (\<lambda>p. andThen (QPoint3d_set_y chk y p) (QPoint3d_set_z chk z))"

definition QPoint3d_fromScalars :: "bool \<Rightarrow> real \<Rightarrow> real \<Rightarrow> real \<Rightarrow> error + QPoint3d" where
  "QPoint3d_fromScalars chk x y z = QPoint3d_setFromScalars chk x y z QPoint3d_new"

definition QPoint3d_unquantize :: "QParams3d \<Rightarrow> Point3d option \<Rightarrow> QPoint3d \<Rightarrow> Point3d" where
  "QPoint3d_unquantize params out this =
     (case out of Some r \<Rightarrow> r | None \<Rightarrow> Point3d_new)
       \<lparr>x3d := unquantize (qx3d this) (x3d (origin3d params)) (x3d (scale3d params)),
        y3d := unquantize (qy3d this) (y3d (origin3d params)) (y3d (scale3d params)),
        z3d := unquantize (qz3d this) (z3d (origin3d params)) (z3d (scale3d params))\<rparr>"

section \<open>Quantized point lists\<close>

text \<open>
  A list owns its record and the sequence \<open>_list\<close> of its points. A method that can
  throw returns \<open>Inl\<close> of the error; one that mutates the list returns the list.
  An index is an integer; reading \<open>_list\<close> at a negative index gives \<open>undefined\<close>, and
  the method call on it is a \<open>TypeError\<close>.
\<close>

record QPoint2dList =
  params2d :: QParams2d
  list2d :: "QPoint2d list"

definition QPoint2dList_new :: "QParams2d \<Rightarrow> QPoint2dList" where
  "QPoint2dList_new params = \<lparr>params2d = QParams2d_clone None params, list2d = []\<rparr>"

definition QPoint2dList_clear :: "QPoint2dList \<Rightarrow> QPoint2dList" where
  "QPoint2dList_clear this = this\<lparr>list2d := []\<rparr>"

definition QPoint2dList_reset :: "QParams2d \<Rightarrow> QPoint2dList \<Rightarrow> QPoint2dList" where
  "QPoint2dList_reset params this =
     (let this1 = QPoint2dList_clear this
      in this1\<lparr>params2d := QParams2d_copyFrom params (params2d this1)\<rparr>)"

definition QPoint2dList_add :: "bool \<Rightarrow> Point2d \<Rightarrow> QPoint2dList \<Rightarrow> error + QPoint2dList" where
  "QPoint2dList_add chk pt this =
     andThen (QPoint2d_create chk pt (params2d this))
       (\<lambda>q. Inr (this\<lparr>list2d := list2d this @ [q]\<rparr>))"

definition QPoint2dList_push :: "bool \<Rightarrow> QPoint2d \<Rightarrow> QPoint2dList \<Rightarrow> error + QPoint2dList" where
  "QPoint2dList_push chk qpt this =
     andThen (QPoint2d_clone chk None qpt)
       (\<lambda>q. Inr (this\<lparr>list2d := list2d this @ [q]\<rparr>))"

definition QPoint2dList_length :: "QPoint2dList \<Rightarrow> nat" where
  "QPoint2dList_length this = length (list2d this)"

definition QPoint2dList_unquantize ::
  "bool \<Rightarrow> int \<Rightarrow> Point2d option \<Rightarrow> QPoint2dList \<Rightarrow> error + (Point2d \<times> QPoint2dList)" where
  "QPoint2dList_unquantize chk index out this =
     andThen (assert chk (index < int (QPoint2dList_length this)))
       (\<lambda>_. if index < int (QPoint2dList_length this) then
               (if 0 \<le> index then
                  Inr (QPoint2d_unquantize (params2d this) out (list2d this ! nat index), this)
                else Inl TypeError)
             else Inr (case out of Some r \<Rightarrow> r | None \<Rightarrow> Point2d_new, this))"

function QPoint2dList_requantize_loop ::
  "bool \<Rightarrow> QParams2d \<Rightarrow> nat \<Rightarrow> QPoint2dList \<Rightarrow> error + QPoint2dList" where
  "QPoint2dList_requantize_loop chk params i this =
     (if i < QPoint2dList_length this then
        (case QPoint2dList_unquantize chk (int i) None this of
           Inl e \<Rightarrow> Inl e
         | Inr (pt, this1) \<Rightarrow>
             (case QPoint2d_init chk pt params (list2d this1 ! i) of
                Inl e \<Rightarrow> Inl e
              | Inr q \<Rightarrow>
                  QPoint2dList_requantize_loop chk params (Suc i)
                    (this1\<lparr>list2d := (list2d this1)[i := q]\<rparr>)))
      else Inr this)"
  by pat_completeness auto
termination
  by (relation "measure (\<lambda>(chk, params, i, this). QPoint2dList_length this - i)")
     (auto simp: QPoint2dList_unquantize_def QPoint2dList_length_def andThen_def
           split: sum.splits if_splits)

definition QPoint2dList_requantize ::
  "bool \<Rightarrow> QParams2d \<Rightarrow> QPoint2dList \<Rightarrow> error + QPoint2dList" where
  "QPoint2dList_requantize chk params this =
     andThen (QPoint2dList_requantize_loop chk params 0 this)
       (\<lambda>this1. Inr (this1\<lparr>params2d := QParams2d_copyFrom params (params2d this1)\<rparr>))"

text \<open>
  A \<open>Uint16Array\<close> is a list of 16-bit words. Storing a number into it converts the
  number with \<open>ToUint16\<close>: truncate towards zero, then reduce modulo \<open>2^16\<close>. A store
  beyond the end of the array is ignored, as list update is.
\<close>

definition ToUint16 :: "real \<Rightarrow> 16 word" where
  "ToUint16 v = word_of_int (if v < 0 then \<lceil>v\<rceil> else \<lfloor>v\<rfloor>)"

function QPoint2dList_toTypedArray_loop ::
  "QPoint2dList \<Rightarrow> nat \<Rightarrow> 16 word list \<Rightarrow> 16 word list" where
  "QPoint2dList_toTypedArray_loop this i array =
     (if i < QPoint2dList_length this then
        (let pt = list2d this ! i
         in QPoint2dList_toTypedArray_loop this (Suc i)
              (array[i * 2 := ToUint16 (qx2d pt), i * 2 + 1 := ToUint16 (qy2d pt)]))
      else array)"
  by pat_completeness auto
termination
  by (relation "measure (\<lambda>(this, i, array). QPoint2dList_length this - i)") auto

definition QPoint2dList_toTypedArray :: "QPoint2dList \<Rightarrow> 16 word list" where
  "QPoint2dList_toTypedArray this =
     QPoint2dList_toTypedArray_loop this 0 (replicate (QPoint2dList_length this * 2) 0)"

record QPoint3dList =
  params3d :: QParams3d
  list3d :: "QPoint3d list"

definition QPoint3dList_new :: "QParams3d \<Rightarrow> QPoint3dList" where
  "QPoint3dList_new params = \<lparr>params3d = QParams3d_clone None params, list3d = []\<rparr>"

definition QPoint3dList_clear :: "QPoint3dList \<Rightarrow> QPoint3dList" where
  "QPoint3dList_clear this = this\<lparr>list3d := []\<rparr>"

definition QPoint3dList_reset :: "QParams3d \<Rightarrow> QPoint3dList \<Rightarrow> QPoint3dList" where
  "QPoint3dList_reset params this =
     (let this1 = QPoint3dList_clear this
      in this1\<lparr>params3d := QParams3d_copyFrom params (params3d this1)\<rparr>)"

definition QPoint3dList_add :: "bool \<Rightarrow> Point3d \<Rightarrow> QPoint3dList \<Rightarrow> error + QPoint3dList" where
  "QPoint3dList_add chk pt this =
     andThen (QPoint3d_create chk pt (params3d this))
       (\<lambda>q. Inr (this\<lparr>list3d := list3d this @ [q]\<rparr>))"

definition QPoint3dList_push :: "bool \<Rightarrow> QPoint3d \<Rightarrow> QPoint3dList \<Rightarrow> error + QPoint3dList" where
  "QPoint3dList_push chk qpt this =
     andThen (QPoint3d_clone chk None qpt)
       (\<lambda>q. Inr (this\<lparr>list3d := list3d this @ [q]\<rparr>))"

definition QPoint3dList_length :: "QPoint3dList \<Rightarrow> nat" where
  "QPoint3dList_length this = length (list3d this)"

definition QPoint3dList_unquantize ::
  "bool \<Rightarrow> int \<Rightarrow> Point3d option \<Rightarrow> QPoint3dList \<Rightarrow> error + (Point3d \<times> QPoint3dList)" where
  "QPoint3dList_unquantize chk index out this =
     andThen (assert chk (index < int (QPoint3dList_length this)))
       (\<lambda>_. if index < int (QPoint3dList_length this) then
               (if 0 \<le> index then
                  Inr (QPoint3d_unquantize (params3d this) out (list3d this ! nat index), this)
                else Inl TypeError)
             else Inr (case out of Some r \<Rightarrow> r | None \<Rightarrow> Point3d_new, this))"



function QPoint3dList_toTypedArray_loop ::
  "QPoint3dList \<Rightarrow> nat \<Rightarrow> 16 word list \<Rightarrow> 16 word list" where
  "QPoint3dList_toTypedArray_loop this i array =
     (if i < QPoint3dList_length this then
        (let pt = list3d this ! i
         in QPoint3dList_toTypedArray_loop this (Suc i)
              (array[i * 3 + 0 := ToUint16 (qx3d pt), i * 3 + 1 := ToUint16 (qy3d pt),
                     i * 3 + 2 := ToUint16 (qz3d pt)]))
      else array)"
  by pat_completeness auto
termination
  by (relation "measure (\<lambda>(this, i, array). QPoint3dList_length this - i)") auto

definition QPoint3dList_toTypedArray :: "QPoint3dList \<Rightarrow> 16 word list" where
  "QPoint3dList_toTypedArray this =
     QPoint3dList_toTypedArray_loop this 0 (replicate (QPoint3dList_length this * 3) 0)"

section \<open>The specification's own words\<close>

text \<open>
  The specification describes \<open>quantize\<close> as the floor of a saturating clamp. The clamp
  and the described function are written here as the specification words them, to be
  compared with \<open>quantize\<close> above, which is the code.
\<close>

definition clamp_spec :: "real \<Rightarrow> real \<Rightarrow> real \<Rightarrow> real" where
  "clamp_spec lo hi v = (if v < lo then lo else if hi < v then hi else v)"

definition quantize_spec :: "real \<Rightarrow> real \<Rightarrow> real \<Rightarrow> real" where
  "quantize_spec pos origin scale =
     of_int \<lfloor>clamp_spec 0 65535 (0.5 + (pos - origin) * scale)\<rfloor>"

text \<open>The invariant of a quantized point: every component is an integer in \<open>[0, 65535]\<close>.\<close>

definition QPoint2d_valid :: "QPoint2d \<Rightarrow> bool" where
  "QPoint2d_valid p = (isQuantized (qx2d p) \<and> isQuantized (qy2d p))"

definition QPoint3d_valid :: "QPoint3d \<Rightarrow> bool" where
  "QPoint3d_valid p = (isQuantized (qx3d p) \<and> isQuantized (qy3d p) \<and> isQuantized (qz3d p))"

text \<open>
  A method returns normally with a result that satisfies \<open>P\<close>: it throws nothing.
\<close>

definition returns :: "('a \<Rightarrow> bool) \<Rightarrow> error + 'a \<Rightarrow> bool" where
  "returns P r = (case r of Inl e \<Rightarrow> False | Inr v \<Rightarrow> P v)"

text \<open>
  Re-basing one point, in the words of the specification: dequantize it under the current
  record, then quantize the recovered position under the new record.
\<close>

definition QPoint2d_rebase :: "QParams2d \<Rightarrow> QParams2d \<Rightarrow> QPoint2d \<Rightarrow> QPoint2d" where
  "QPoint2d_rebase cur new q =
     \<lparr>qx2d = quantize (unquantize (qx2d q) (x2d (origin2d cur)) (x2d (scale2d cur)))
               (x2d (origin2d new)) (x2d (scale2d new)),
      qy2d = quantize (unquantize (qy2d q) (y2d (origin2d cur)) (y2d (scale2d cur)))
               (y2d (origin2d new)) (y2d (scale2d new))\<rparr>"


section \<open>Binary64 arithmetic\<close>

text \<open>
  A JavaScript number is a finite double, an infinity or NaN. A finite double is given
  by its real value; the two zeros are one value, since the codec never divides by a zero
  and \<open>===\<close> does not tell them apart, so that no result depends on the sign of a zero.
\<close>

datatype number = Fin real | PInf | NInf | NaN

text \<open>
  Rounding to nearest, ties to even. \<open>ilog2 x\<close> is the binary exponent of a positive
  \<open>x\<close>: \<open>2 ^ ilog2 x \<le> x < 2 ^ (ilog2 x + 1)\<close>. The unit in the last place of \<open>x\<close> is
  \<open>2 ^ (e - 52)\<close>, where \<open>e\<close> is that exponent and at least \<open>-1022\<close>, which gives the
  subnormal numbers their fixed spacing \<open>2 ^ -1074\<close>. \<open>round_grid x\<close> is the multiple of
  the unit nearest to \<open>x\<close>, and it overflows to an infinity from \<open>2 ^ 1024\<close> on.
\<close>

definition ilog2 :: "real \<Rightarrow> int" where
  "ilog2 x = (if 1 \<le> x then bitlen \<lfloor>x\<rfloor> - 1 else - bitlen (\<lceil>1 / x\<rceil> - 1))"

definition expo :: "real \<Rightarrow> int" where
  "expo x = (if x = 0 then - 1022 else max (- 1022) (ilog2 \<bar>x\<bar>))"

definition ulp :: "real \<Rightarrow> real" where
  "ulp x = 2 powi (expo x - 52)"

definition rne :: "real \<Rightarrow> int" where
  "rne y =
     (let f = \<lfloor>y\<rfloor>; r = y - of_int f
      in if r < 1 / 2 then f else if 1 / 2 < r then f + 1 else if even f then f else f + 1)"

definition round_grid :: "real \<Rightarrow> real" where
  "round_grid x = of_int (rne (x / ulp x)) * ulp x"

definition round64 :: "real \<Rightarrow> number" where
  "round64 x =
     (let r = round_grid x
      in if 2 ^ 1024 \<le> r then PInf else if r \<le> - (2 ^ 1024) then NInf else Fin r)"

definition is_double :: "real \<Rightarrow> bool" where
  "is_double x = (round64 x = Fin x)"

text \<open>
  The arithmetic operators \<open>+\<close>, \<open>-\<close>, \<open>*\<close>, \<open>/\<close> of IEEE 754: the exact result
  rounded, with the usual rules for infinities and NaN. Division by a zero is written for
  the positive zero; the codec guards every division it makes.
\<close>

fun fneg :: "number \<Rightarrow> number" where
  "fneg (Fin a) = Fin (- a)"
| "fneg PInf = NInf"
| "fneg NInf = PInf"
| "fneg NaN = NaN"

fun fadd :: "number \<Rightarrow> number \<Rightarrow> number" where
  "fadd (Fin a) (Fin b) = round64 (a + b)"
| "fadd NaN y = NaN"
| "fadd x NaN = NaN"
| "fadd PInf NInf = NaN"
| "fadd NInf PInf = NaN"
| "fadd PInf y = PInf"
| "fadd x PInf = PInf"
| "fadd NInf y = NInf"
| "fadd x NInf = NInf"

definition fsub :: "number \<Rightarrow> number \<Rightarrow> number" where
  "fsub x y = fadd x (fneg y)"

fun sign_of :: "number \<Rightarrow> real" where
  "sign_of (Fin a) = sgn a"
| "sign_of PInf = 1"
| "sign_of NInf = - 1"
| "sign_of NaN = 0"

definition signed_inf :: "real \<Rightarrow> number" where
  "signed_inf s = (if s = 0 then NaN else if 0 < s then PInf else NInf)"

fun fmul :: "number \<Rightarrow> number \<Rightarrow> number" where
  "fmul (Fin a) (Fin b) = round64 (a * b)"
| "fmul NaN y = NaN"
| "fmul x NaN = NaN"
| "fmul x y = signed_inf (sign_of x * sign_of y)"

fun fdiv :: "number \<Rightarrow> number \<Rightarrow> number" where
  "fdiv (Fin a) (Fin b) = (if b = 0 then signed_inf (sgn a) else round64 (a / b))"
| "fdiv NaN y = NaN"
| "fdiv x NaN = NaN"
| "fdiv (Fin a) y = Fin 0"
| "fdiv x (Fin b) = signed_inf (sign_of x * (if b < 0 then - 1 else 1))"
| "fdiv x y = NaN"

text \<open>
  The comparisons \<open><\<close>, \<open>===\<close> and \<open>>=\<close>, false whenever an operand is NaN, and
  \<open>Math.floor\<close>, \<open>Math.max\<close>, \<open>Math.min\<close>, which return NaN when an argument is NaN.
\<close>

fun flt :: "number \<Rightarrow> number \<Rightarrow> bool" where
  "flt (Fin a) (Fin b) = (a < b)"
| "flt NaN y = False"
| "flt x NaN = False"
| "flt x NInf = False"
| "flt PInf y = False"
| "flt x y = True"

fun feq :: "number \<Rightarrow> number \<Rightarrow> bool" where
  "feq NaN y = False"
| "feq x NaN = False"
| "feq x y = (x = y)"

definition fge :: "number \<Rightarrow> number \<Rightarrow> bool" where
  "fge x y = (flt y x \<or> feq x y)"

fun Math_floor64 :: "number \<Rightarrow> number" where
  "Math_floor64 (Fin a) = Fin (of_int \<lfloor>a\<rfloor>)"
| "Math_floor64 x = x"

definition Math_max64 :: "number \<Rightarrow> number \<Rightarrow> number" where
  "Math_max64 x y = (if x = NaN \<or> y = NaN then NaN else if flt x y then y else x)"

definition Math_min64 :: "number \<Rightarrow> number \<Rightarrow> number" where
  "Math_min64 x y = (if x = NaN \<or> y = NaN then NaN else if flt y x then y else x)"

section \<open>The quantization functions in binary64\<close>

text \<open>
  The functions of the namespace \<open>Quantization\<close> once more, operator by operator as the
  source writes them, now on doubles.
\<close>

definition rangeScale64 :: number where
  "rangeScale64 = Fin 65535"

definition computeScale64 :: "number \<Rightarrow> number" where
  "computeScale64 extent = (if feq (Fin 0) extent then extent else fdiv rangeScale64 extent)"

definition isInRange64 :: "number \<Rightarrow> bool" where
  "isInRange64 qpos = (fge qpos (Fin 0) \<and> flt qpos (fadd rangeScale64 (Fin 1)))"

definition quantize64 :: "number \<Rightarrow> number \<Rightarrow> number \<Rightarrow> number" where
  "quantize64 pos origin scale =
     Math_floor64 (Math_max64 (Fin 0)
       (Math_min64 rangeScale64 (fadd (Fin (1 / 2)) (fmul (fsub pos origin) scale))))"

definition isQuantizable64 :: "number \<Rightarrow> number \<Rightarrow> number \<Rightarrow> bool" where
  "isQuantizable64 pos origin scale = isInRange64 (quantize64 pos origin scale)"

definition unquantize64 :: "number \<Rightarrow> number \<Rightarrow> number \<Rightarrow> number" where
  "unquantize64 qpos origin scale =
     (if feq (Fin 0) scale then origin else fadd origin (fdiv qpos scale))"

definition isQuantized64 :: "number \<Rightarrow> bool" where
  "isQuantized64 qpos = (isInRange64 qpos \<and> feq qpos (Math_floor64 qpos))"

text \<open>
  The saturating clamp of the specification on doubles, and the bounds used to follow a
  value through the operations: \<open>at_most n c\<close> says that \<open>n\<close> is not NaN and not above
  \<open>c\<close>, \<open>at_least n c\<close> that it is not NaN and not below \<open>c\<close>.
\<close>

definition clamp64 :: "number \<Rightarrow> number \<Rightarrow> number \<Rightarrow> number" where
  "clamp64 lo hi v = (if flt v lo then lo else if flt hi v then hi else v)"

definition at_most :: "number \<Rightarrow> real \<Rightarrow> bool" where
  "at_most n c = (n = NInf \<or> (\<exists>y. n = Fin y \<and> y \<le> c))"

definition at_least :: "number \<Rightarrow> real \<Rightarrow> bool" where
  "at_least n c = (n = PInf \<or> (\<exists>y. n = Fin y \<and> c \<le> y))"

definition is_infinite :: "number \<Rightarrow> bool" where
  "is_infinite n = (n = PInf \<or> n = NInf)"

text \<open>
  The path from a range to a quantized 2D point on doubles: the record built from the
  range, the asserting setters, \<open>init\<close> and \<open>create\<close>, as in the sections above.
\<close>

record Point2d64 =
  x64 :: number
  y64 :: number

record Range2d64 =
  low64 :: Point2d64
  high64 :: Point2d64
  isNull64 :: bool

record QParams2d64 =
  origin64 :: Point2d64
  scale64 :: Point2d64

definition QParams2d_setFrom64 ::
  "number \<Rightarrow> number \<Rightarrow> number \<Rightarrow> number \<Rightarrow> QParams2d64 \<Rightarrow> QParams2d64" where
  "QParams2d_setFrom64 ox oy sx sy this =
     this\<lparr>origin64 := (origin64 this)\<lparr>x64 := ox, y64 := oy\<rparr>,
          scale64 := (scale64 this)\<lparr>x64 := sx, y64 := sy\<rparr>\<rparr>"

definition QParams2d_new64 :: QParams2d64 where
  "QParams2d_new64 =
     QParams2d_setFrom64 (Fin 0) (Fin 0) (Fin 0) (Fin 0)
       \<lparr>origin64 = \<lparr>x64 = Fin 0, y64 = Fin 0\<rparr>, scale64 = \<lparr>x64 = Fin 0, y64 = Fin 0\<rparr>\<rparr>"

definition QParams2d_setFromRange64 :: "Range2d64 \<Rightarrow> QParams2d64 \<Rightarrow> QParams2d64" where
  "QParams2d_setFromRange64 rng this =
     (if \<not> isNull64 rng then
        QParams2d_setFrom64 (x64 (low64 rng)) (y64 (low64 rng))
          (computeScale64 (fsub (x64 (high64 rng)) (x64 (low64 rng))))
          (computeScale64 (fsub (y64 (high64 rng)) (y64 (low64 rng)))) this
      else
        this\<lparr>origin64 := (origin64 this)\<lparr>x64 := Fin 0, y64 := Fin 0\<rparr>,
             scale64 := (scale64 this)\<lparr>x64 := Fin 0, y64 := Fin 0\<rparr>\<rparr>)"

definition QParams2d_fromRange64 :: "Range2d64 \<Rightarrow> QParams2d64 option \<Rightarrow> QParams2d64" where
  "QParams2d_fromRange64 rng out =
     QParams2d_setFromRange64 rng (case out of Some r \<Rightarrow> r | None \<Rightarrow> QParams2d_new64)"

record QPoint2d64 =
  qx64 :: number
  qy64 :: number

definition QPoint2d_new64 :: QPoint2d64 where
  "QPoint2d_new64 = \<lparr>qx64 = Fin 0, qy64 = Fin 0\<rparr>"

definition QPoint2d_set_x64 :: "bool \<Rightarrow> number \<Rightarrow> QPoint2d64 \<Rightarrow> error + QPoint2d64" where
  "QPoint2d_set_x64 chk v this =
     andThen (assert chk (isQuantized64 v)) (\<lambda>_. Inr (this\<lparr>qx64 := v\<rparr>))"

definition QPoint2d_set_y64 :: "bool \<Rightarrow> number \<Rightarrow> QPoint2d64 \<Rightarrow> error + QPoint2d64" where
  "QPoint2d_set_y64 chk v this =
     andThen (assert chk (isQuantized64 v)) (\<lambda>_. Inr (this\<lparr>qy64 := v\<rparr>))"

definition QPoint2d_init64 ::
  "bool \<Rightarrow> Point2d64 \<Rightarrow> QParams2d64 \<Rightarrow> QPoint2d64 \<Rightarrow> error + QPoint2d64" where
  "QPoint2d_init64 chk pos params this =
     andThen (QPoint2d_set_x64 chk
                (quantize64 (x64 pos) (x64 (origin64 params)) (x64 (scale64 params))) this)
       (QPoint2d_set_y64 chk
          (quantize64 (y64 pos) (y64 (origin64 params)) (y64 (scale64 params))))"

definition QPoint2d_create64 :: "bool \<Rightarrow> Point2d64 \<Rightarrow> QParams2d64 \<Rightarrow> error + QPoint2d64" where
  "QPoint2d_create64 chk pos params = QPoint2d_init64 chk pos params QPoint2d_new64"

text \<open>
  The 2D list on doubles, with \<open>add\<close>, the indexed \<open>unquantize\<close> and \<open>requantize\<close>.
\<close>

definition Point2d_new64 :: Point2d64 where
  "Point2d_new64 = \<lparr>x64 = Fin 0, y64 = Fin 0\<rparr>"

definition QParams2d_copyFrom64 :: "QParams2d64 \<Rightarrow> QParams2d64 \<Rightarrow> QParams2d64" where
  "QParams2d_copyFrom64 src this =
     QParams2d_setFrom64 (x64 (origin64 src)) (y64 (origin64 src))
       (x64 (scale64 src)) (y64 (scale64 src)) this"

definition QParams2d_clone64 :: "QParams2d64 option \<Rightarrow> QParams2d64 \<Rightarrow> QParams2d64" where
  "QParams2d_clone64 out this =
     QParams2d_copyFrom64 this (case out of Some r \<Rightarrow> r | None \<Rightarrow> QParams2d_new64)"

definition QPoint2d_unquantize64 ::
  "QParams2d64 \<Rightarrow> Point2d64 option \<Rightarrow> QPoint2d64 \<Rightarrow> Point2d64" where
  "QPoint2d_unquantize64 params out this =
     (case out of Some r \<Rightarrow> r | None \<Rightarrow> Point2d_new64)
       \<lparr>x64 := unquantize64 (qx64 this) (x64 (origin64 params)) (x64 (scale64 params)),
        y64 := unquantize64 (qy64 this) (y64 (origin64 params)) (y64 (scale64 params))\<rparr>"

record QPoint2dList64 =
  params64 :: QParams2d64
  list64 :: "QPoint2d64 list"

definition QPoint2dList_new64 :: "QParams2d64 \<Rightarrow> QPoint2dList64" where
  "QPoint2dList_new64 params = \<lparr>params64 = QParams2d_clone64 None params, list64 = []\<rparr>"

definition QPoint2dList_add64 ::
  "bool \<Rightarrow> Point2d64 \<Rightarrow> QPoint2dList64 \<Rightarrow> error + QPoint2dList64" where
  "QPoint2dList_add64 chk pt this =
     andThen (QPoint2d_create64 chk pt (params64 this))
       (\<lambda>q. Inr (this\<lparr>list64 := list64 this @ [q]\<rparr>))"

definition QPoint2dList_length64 :: "QPoint2dList64 \<Rightarrow> nat" where
  "QPoint2dList_length64 this = length (list64 this)"

definition QPoint2dList_unquantize64 ::
  "bool \<Rightarrow> int \<Rightarrow> Point2d64 option \<Rightarrow> QPoint2dList64 \<Rightarrow>
   error + (Point2d64 \<times> QPoint2dList64)" where
  "QPoint2dList_unquantize64 chk index out this =
     andThen (assert chk (index < int (QPoint2dList_length64 this)))
       (\<lambda>_. if index < int (QPoint2dList_length64 this) then
               (if 0 \<le> index then
                  Inr (QPoint2d_unquantize64 (params64 this) out (list64 this ! nat index), this)
                else Inl TypeError)
             else Inr (case out of Some r \<Rightarrow> r | None \<Rightarrow> Point2d_new64, this))"

function QPoint2dList_requantize_loop64 ::
  "bool \<Rightarrow> QParams2d64 \<Rightarrow> nat \<Rightarrow> QPoint2dList64 \<Rightarrow> error + QPoint2dList64" where
  "QPoint2dList_requantize_loop64 chk params i this =
     (if i < QPoint2dList_length64 this then
        (case QPoint2dList_unquantize64 chk (int i) None this of
           Inl e \<Rightarrow> Inl e
         | Inr (pt, this1) \<Rightarrow>
             (case QPoint2d_init64 chk pt params (list64 this1 ! i) of
                Inl e \<Rightarrow> Inl e
              | Inr q \<Rightarrow>
                  QPoint2dList_requantize_loop64 chk params (Suc i)
                    (this1\<lparr>list64 := (list64 this1)[i := q]\<rparr>)))
      else Inr this)"
  by pat_completeness auto
termination
  by (relation "measure (\<lambda>(chk, params, i, this). QPoint2dList_length64 this - i)")
     (auto simp: QPoint2dList_unquantize64_def QPoint2dList_length64_def andThen_def
           split: sum.splits if_splits)

definition QPoint2dList_requantize64 ::
  "bool \<Rightarrow> QParams2d64 \<Rightarrow> QPoint2dList64 \<Rightarrow> error + QPoint2dList64" where
  "QPoint2dList_requantize64 chk params this =
     andThen (QPoint2dList_requantize_loop64 chk params 0 this)
       (\<lambda>this1. Inr (this1\<lparr>params64 := QParams2d_copyFrom64 params (params64 this1)\<rparr>))"

section \<open>Properties of the quantization functions\<close>

declare QPoint2dList_requantize_loop.simps [simp del]
declare QPoint2dList_toTypedArray_loop.simps [simp del]
declare QPoint3dList_toTypedArray_loop.simps [simp del]
declare QPoint2dList_requantize_loop64.simps [simp del]

lemma quantize_range: "0 \<le> quantize pos origin scale \<and> quantize pos origin scale \<le> 65535"
proof -
  let ?v = "max 0 (min rangeScale (0.5 + (pos - origin) * scale))"
  have lo: "0 \<le> ?v" by simp
  have hi: "?v \<le> 65535" by (simp add: rangeScale_def)
  have "(0::int) \<le> \<lfloor>?v\<rfloor>" using lo by simp
  moreover have "\<lfloor>?v\<rfloor> \<le> (65535::int)" using hi by (simp add: floor_le_iff)
  ultimately show ?thesis
    unfolding quantize_def Math_floor_def by simp
qed

lemma quantize_isQuantized: "isQuantized (quantize pos origin scale)"
proof -
  have "Math_floor (quantize pos origin scale) = quantize pos origin scale"
    unfolding quantize_def Math_floor_def by simp
  then show ?thesis
    using quantize_range [of pos origin scale]
    by (simp add: isQuantized_def isInRange_def rangeScale_def)
qed

lemma isQuantized_0: "isQuantized 0"
  by (simp add: isQuantized_def isInRange_def Math_floor_def rangeScale_def)

lemma isQuantized_numeral [simp]: "isQuantized (numeral k) = (numeral k \<le> (65535::int))"
proof -
  have "Math_floor (numeral k) = numeral k"
    by (simp add: Math_floor_def)
  moreover have "((numeral k :: real) < 65536) = (numeral k \<le> (65535::int))"
  proof -
    have "((numeral k :: real) < 65536) = (real_of_int (numeral k) < real_of_int 65536)" by simp
    also have "\<dots> = ((numeral k :: int) < 65536)" by (simp only: of_int_less_iff)
    also have "\<dots> = (numeral k \<le> (65535::int))" by linarith
    finally show ?thesis .
  qed
  ultimately show ?thesis
    by (simp add: isQuantized_def isInRange_def rangeScale_def)
qed

lemmas params_simps =
  QParams2d_fromZeroToOne_def QParams3d_fromZeroToOne_def
  QParams2d_fromRange_def QParams2d_setFromRange_def QParams2d_setFrom_def
  QParams2d_new_def Point2d_new_def QParams2d_clone_def QParams2d_copyFrom_def
  QParams3d_fromRange_def QParams3d_setFromRange_def QParams3d_setFrom_def
  QParams3d_new_def Point3d_new_def QParams3d_clone_def QParams3d_copyFrom_def
  computeScale_def rangeScale_def

text \<open>
  Claim C3, as amended. \<open>isInRange\<close> accepts the half-open interval \<open>[0, 65536)\<close>; on
  integers this is the closed interval \<open>[0, 65535]\<close>.
\<close>

theorem isInRange_half_open:
  "isInRange q = (0 \<le> q \<and> q < 65536) \<and>
   isInRange (of_int n) = (0 \<le> n \<and> n \<le> 65535)"
  by (auto simp add: isInRange_def rangeScale_def)

text \<open>
  Claim C3 as stated fails at \<open>q = 65535.5\<close>, which \<open>isInRange\<close> accepts although it
  exceeds \<open>65535\<close>.
\<close>

theorem isInRange_accepts_fraction:
  "isInRange (131071 / 2) \<noteq> (0 \<le> (131071 / 2 :: real) \<and> (131071 / 2 :: real) \<le> 65535)"
  by (simp add: isInRange_def rangeScale_def)

text \<open>
  A record built from a range that is not null has, on every axis, the low corner as its
  origin and \<open>computeScale (high - low)\<close> as its scale. The law below is stated for one
  such axis, with \<open>lo\<close> and \<open>hi\<close> the bounds of the range on it.
\<close>

lemma QParams2d_fromRange_axes:
  assumes "\<not> isNull2d rng"
  shows "x2d (origin2d (QParams2d_fromRange rng out)) = x2d (low2d rng)"
    and "y2d (origin2d (QParams2d_fromRange rng out)) = y2d (low2d rng)"
    and "x2d (scale2d (QParams2d_fromRange rng out)) =
           computeScale (x2d (high2d rng) - x2d (low2d rng))"
    and "y2d (scale2d (QParams2d_fromRange rng out)) =
           computeScale (y2d (high2d rng) - y2d (low2d rng))"
  using assms
  by (simp_all add: QParams2d_fromRange_def QParams2d_setFromRange_def QParams2d_setFrom_def)

lemma QParams3d_fromRange_axes:
  assumes "\<not> isNull3d rng"
  shows "x3d (origin3d (QParams3d_fromRange rng out)) = x3d (low3d rng)"
    and "y3d (origin3d (QParams3d_fromRange rng out)) = y3d (low3d rng)"
    and "z3d (origin3d (QParams3d_fromRange rng out)) = z3d (low3d rng)"
    and "x3d (scale3d (QParams3d_fromRange rng out)) =
           computeScale (x3d (high3d rng) - x3d (low3d rng))"
    and "y3d (scale3d (QParams3d_fromRange rng out)) =
           computeScale (y3d (high3d rng) - y3d (low3d rng))"
    and "z3d (scale3d (QParams3d_fromRange rng out)) =
           computeScale (z3d (high3d rng) - z3d (low3d rng))"
  using assms
  by (simp_all add: QParams3d_fromRange_def QParams3d_setFromRange_def QParams3d_setFrom_def)

text \<open>
  Claim C8. Degenerate range: an axis of zero extent gets the scale \<open>0\<close>, and with that
  scale \<open>unquantize\<close> returns the origin whatever the stored value is.
\<close>

theorem degenerate_axis_collapses_to_origin:
  assumes "hi - lo = 0"
  shows "computeScale (hi - lo) = 0 \<and>
         unquantize q origin (computeScale (hi - lo)) = origin \<and>
         unquantize q origin 0 = origin"
  using assms by (simp add: computeScale_def unquantize_def)

theorem degenerate_axis_collapses_to_origin_witness:
  "(1::real) - 1 = 0 \<and> computeScale (1 - 1) = 0 \<and>
   unquantize 40000 1 (computeScale (1 - 1)) = 1 \<and> unquantize 40000 1 0 = 1"
proof -
  have h: "(1::real) - 1 = 0" by simp
  show ?thesis
    using degenerate_axis_collapses_to_origin [OF h, of 40000 1] by simp
qed

section \<open>Properties of quantized points\<close>

lemma assert_True [simp]: "assert chk True = Inr ()"
  by (simp add: assert_def)

lemma andThen_Inr [simp]: "andThen (Inr v) f = f v"
  by (simp add: andThen_def)

lemma andThen_Inl [simp]: "andThen (Inl e) f = Inl e"
  by (simp add: andThen_def)

lemma returns_Inr [simp]: "returns P (Inr v) = P v"
  by (simp add: returns_def)

lemma QPoint2d_set_x_ok: "isQuantized v \<Longrightarrow> QPoint2d_set_x chk v p = Inr (p\<lparr>qx2d := v\<rparr>)"
  by (simp add: QPoint2d_set_x_def)

lemma QPoint2d_set_y_ok: "isQuantized v \<Longrightarrow> QPoint2d_set_y chk v p = Inr (p\<lparr>qy2d := v\<rparr>)"
  by (simp add: QPoint2d_set_y_def)

lemma QPoint2d_init_ok:
  "QPoint2d_init chk pos params p =
     Inr \<lparr>qx2d = quantize (x2d pos) (x2d (origin2d params)) (x2d (scale2d params)),
          qy2d = quantize (y2d pos) (y2d (origin2d params)) (y2d (scale2d params))\<rparr>"
  by (simp add: QPoint2d_init_def QPoint2d_set_x_ok QPoint2d_set_y_ok quantize_isQuantized)

lemma QPoint2d_copyFrom_ok:
  "QPoint2d_valid src \<Longrightarrow> QPoint2d_copyFrom chk src this = Inr src"
  by (simp add: QPoint2d_copyFrom_def QPoint2d_valid_def QPoint2d_set_x_ok QPoint2d_set_y_ok)

lemma QPoint2d_setFromScalars_ok:
  "isQuantized a \<Longrightarrow> isQuantized b \<Longrightarrow>
   QPoint2d_setFromScalars chk a b this = Inr \<lparr>qx2d = a, qy2d = b\<rparr>"
  by (simp add: QPoint2d_setFromScalars_def QPoint2d_set_x_ok QPoint2d_set_y_ok)





section \<open>Properties of quantized point lists\<close>

lemma QPoint2dList_unquantize_ok:
  "i < length (list2d this) \<Longrightarrow>
   QPoint2dList_unquantize chk (int i) None this =
     Inr (QPoint2d_unquantize (params2d this) None (list2d this ! i), this)"
  by (simp add: QPoint2dList_unquantize_def QPoint2dList_length_def)

lemma QPoint2d_rebase_step:
  "i < length (list2d this) \<Longrightarrow>
   QPoint2dList_requantize_loop chk params i this =
   QPoint2dList_requantize_loop chk params (Suc i)
     (this\<lparr>list2d := (list2d this)[i := QPoint2d_rebase (params2d this) params (list2d this ! i)]\<rparr>)"
  by (subst QPoint2dList_requantize_loop.simps)
     (simp add: QPoint2dList_unquantize_ok QPoint2d_init_ok QPoint2dList_length_def
        QPoint2d_rebase_def QPoint2d_unquantize_def Point2d_new_def)

lemma QPoint2d_rebase_stop:
  "length (list2d this) \<le> i \<Longrightarrow> QPoint2dList_requantize_loop chk params i this = Inr this"
  by (subst QPoint2dList_requantize_loop.simps) (simp add: QPoint2dList_length_def)

lemma QPoint2dList_requantize_loop_eq:
  "i \<le> length (list2d this) \<Longrightarrow>
   QPoint2dList_requantize_loop chk params i this =
     Inr (this\<lparr>list2d := take i (list2d this) @
            map (QPoint2d_rebase (params2d this) params) (drop i (list2d this))\<rparr>)"
proof (induction "length (list2d this) - i" arbitrary: i this)
  case 0
  then show ?case by (simp add: QPoint2d_rebase_stop)
next
  case (Suc n)
  then have lt: "i < length (list2d this)" by simp
  let ?q = "QPoint2d_rebase (params2d this) params (list2d this ! i)"
  let ?this1 = "this\<lparr>list2d := (list2d this)[i := ?q]\<rparr>"
  have "n = length (list2d ?this1) - Suc i" using Suc.hyps(2) by simp
  moreover have "Suc i \<le> length (list2d ?this1)" using lt by simp
  ultimately have "QPoint2dList_requantize_loop chk params (Suc i) ?this1 =
     Inr (?this1\<lparr>list2d := take (Suc i) (list2d ?this1) @
            map (QPoint2d_rebase (params2d ?this1) params) (drop (Suc i) (list2d ?this1))\<rparr>)"
    by (rule Suc.hyps(1))
  moreover have "take (Suc i) ((list2d this)[i := ?q]) = take i (list2d this) @ [?q]"
    using lt by (simp add: take_Suc_conv_app_nth)
  moreover have "drop i (list2d this) = list2d this ! i # drop (Suc i) (list2d this)"
    using lt by (simp add: Cons_nth_drop_Suc)
  ultimately show ?case
    using lt by (simp add: QPoint2d_rebase_step)
qed

lemma QPoint2dList_requantize_eq:
  "QPoint2dList_requantize chk params this =
     Inr \<lparr>params2d = params, list2d = map (QPoint2d_rebase (params2d this) params) (list2d this)\<rparr>"
  by (simp add: QPoint2dList_requantize_def QPoint2dList_requantize_loop_eq
        QParams2d_copyFrom_def QParams2d_setFrom_def)








text \<open>
  Requantizing with the list's own record is not always a no-op. The record of the
  one-point range \<open>[1, 1] \<times> [1, 1]\<close> has scale \<open>(0, 0)\<close>; the point \<open>(5, 5)\<close>, made by
  \<open>fromScalars\<close> and appended by \<open>push\<close>, is dequantized to the origin and quantized again to
  \<open>(0, 0)\<close>, five cells away. Every value on this path is a small integer, so binary64
  computes the same.
\<close>

lemma requantize_same_record_moves_pushed_point:
  "QParams2d_fromRange
     \<lparr>low2d = \<lparr>x2d = 1, y2d = 1\<rparr>, high2d = \<lparr>x2d = 1, y2d = 1\<rparr>, isNull2d = False\<rparr> None =
     \<lparr>origin2d = \<lparr>x2d = 1, y2d = 1\<rparr>, scale2d = \<lparr>x2d = 0, y2d = 0\<rparr>\<rparr> \<and>
   QPoint2d_fromScalars True 5 5 = Inr \<lparr>qx2d = 5, qy2d = 5\<rparr> \<and>
   QPoint2dList_push True \<lparr>qx2d = 5, qy2d = 5\<rparr>
     (QPoint2dList_new \<lparr>origin2d = \<lparr>x2d = 1, y2d = 1\<rparr>, scale2d = \<lparr>x2d = 0, y2d = 0\<rparr>\<rparr>) =
     Inr \<lparr>params2d = \<lparr>origin2d = \<lparr>x2d = 1, y2d = 1\<rparr>, scale2d = \<lparr>x2d = 0, y2d = 0\<rparr>\<rparr>,
          list2d = [\<lparr>qx2d = 5, qy2d = 5\<rparr>]\<rparr> \<and>
   QPoint2dList_requantize True
     \<lparr>origin2d = \<lparr>x2d = 1, y2d = 1\<rparr>, scale2d = \<lparr>x2d = 0, y2d = 0\<rparr>\<rparr>
     \<lparr>params2d = \<lparr>origin2d = \<lparr>x2d = 1, y2d = 1\<rparr>, scale2d = \<lparr>x2d = 0, y2d = 0\<rparr>\<rparr>,
      list2d = [\<lparr>qx2d = 5, qy2d = 5\<rparr>]\<rparr> =
     Inr \<lparr>params2d = \<lparr>origin2d = \<lparr>x2d = 1, y2d = 1\<rparr>, scale2d = \<lparr>x2d = 0, y2d = 0\<rparr>\<rparr>,
          list2d = [\<lparr>qx2d = 0, qy2d = 0\<rparr>]\<rparr> \<and>
   \<not> \<bar>qx2d \<lparr>qx2d = 0, qy2d = 0\<rparr> - qx2d \<lparr>qx2d = 5, qy2d = 5\<rparr>\<bar> \<le> 1"
proof -
  have "QPoint2dList_push True \<lparr>qx2d = 5, qy2d = 5\<rparr>
     (QPoint2dList_new \<lparr>origin2d = \<lparr>x2d = 1, y2d = 1\<rparr>, scale2d = \<lparr>x2d = 0, y2d = 0\<rparr>\<rparr>) =
     Inr \<lparr>params2d = \<lparr>origin2d = \<lparr>x2d = 1, y2d = 1\<rparr>, scale2d = \<lparr>x2d = 0, y2d = 0\<rparr>\<rparr>,
          list2d = [\<lparr>qx2d = 5, qy2d = 5\<rparr>]\<rparr>"
    by (simp add: QPoint2dList_push_def QPoint2dList_new_def QPoint2d_clone_def
          QPoint2d_copyFrom_ok QPoint2d_valid_def params_simps)
  moreover have "QPoint2d_fromScalars True 5 5 = Inr \<lparr>qx2d = 5, qy2d = 5\<rparr>"
    by (simp add: QPoint2d_fromScalars_def QPoint2d_setFromScalars_ok)
  moreover have "QPoint2dList_requantize True
     \<lparr>origin2d = \<lparr>x2d = 1, y2d = 1\<rparr>, scale2d = \<lparr>x2d = 0, y2d = 0\<rparr>\<rparr>
     \<lparr>params2d = \<lparr>origin2d = \<lparr>x2d = 1, y2d = 1\<rparr>, scale2d = \<lparr>x2d = 0, y2d = 0\<rparr>\<rparr>,
      list2d = [\<lparr>qx2d = 5, qy2d = 5\<rparr>]\<rparr> =
     Inr \<lparr>params2d = \<lparr>origin2d = \<lparr>x2d = 1, y2d = 1\<rparr>, scale2d = \<lparr>x2d = 0, y2d = 0\<rparr>\<rparr>,
          list2d = [\<lparr>qx2d = 0, qy2d = 0\<rparr>]\<rparr>"
    by (simp add: QPoint2dList_requantize_eq QPoint2d_rebase_def quantize_def unquantize_def
          Math_floor_def rangeScale_def)
  ultimately show ?thesis
    by (simp add: params_simps)
qed

lemma ToUint16_isQuantized:
  assumes "isQuantized v"
  shows "real (unat (ToUint16 v)) = v"
proof -
  have v: "v = of_int \<lfloor>v\<rfloor>" using assms by (simp add: isQuantized_def Math_floor_def)
  have lo: "0 \<le> \<lfloor>v\<rfloor>" using assms by (simp add: isQuantized_def isInRange_def)
  have "v < 65536" using assms by (simp add: isQuantized_def isInRange_def rangeScale_def)
  then have hi: "\<lfloor>v\<rfloor> < 65536" by linarith
  have "uint (word_of_int \<lfloor>v\<rfloor> :: 16 word) = \<lfloor>v\<rfloor>"
    using lo hi by (simp add: uint_word_of_int take_bit_int_eq_self)
  then have "int (unat (ToUint16 v)) = \<lfloor>v\<rfloor>"
    using lo assms by (simp add: ToUint16_def isQuantized_def isInRange_def)
  then have "real_of_int (int (unat (ToUint16 v))) = of_int \<lfloor>v\<rfloor>" by simp
  then show ?thesis using v by simp
qed

lemma QPoint2dList_toTypedArray_loop_length:
  "length (QPoint2dList_toTypedArray_loop this i array) = length array"
proof (induction "length (list2d this) - i" arbitrary: i array)
  case 0
  then show ?case
    by (subst QPoint2dList_toTypedArray_loop.simps) (simp add: QPoint2dList_length_def)
next
  case (Suc n)
  then have "n = length (list2d this) - Suc i" by simp
  then show ?case
    using Suc.hyps(1)
    by (subst QPoint2dList_toTypedArray_loop.simps) (simp add: Let_def)
qed

lemma QPoint2dList_toTypedArray_loop_keeps:
  "k < i * 2 \<Longrightarrow> QPoint2dList_toTypedArray_loop this i array ! k = array ! k"
proof (induction "length (list2d this) - i" arbitrary: i array)
  case 0
  then show ?case
    by (subst QPoint2dList_toTypedArray_loop.simps) (simp add: QPoint2dList_length_def)
next
  case (Suc n)
  then have "n = length (list2d this) - Suc i" and "k < Suc i * 2" by simp_all
  then have "QPoint2dList_toTypedArray_loop this (Suc i)
               (array[i * 2 := ToUint16 (qx2d (list2d this ! i)),
                      i * 2 + 1 := ToUint16 (qy2d (list2d this ! i))]) ! k =
             (array[i * 2 := ToUint16 (qx2d (list2d this ! i)),
                    i * 2 + 1 := ToUint16 (qy2d (list2d this ! i))]) ! k"
    by (rule Suc.hyps(1))
  then show ?case
    using Suc.prems
    by (subst QPoint2dList_toTypedArray_loop.simps) (simp add: Let_def)
qed

lemma QPoint2dList_toTypedArray_loop_nth:
  assumes "length array = length (list2d this) * 2" "i \<le> j" "j < length (list2d this)"
  shows "QPoint2dList_toTypedArray_loop this i array ! (j * 2) = ToUint16 (qx2d (list2d this ! j)) \<and>
         QPoint2dList_toTypedArray_loop this i array ! (j * 2 + 1) = ToUint16 (qy2d (list2d this ! j))"
  using assms
proof (induction "j - i" arbitrary: i array)
  case 0
  then have ij: "i = j" by simp
  let ?a = "array[j * 2 := ToUint16 (qx2d (list2d this ! j)),
                  j * 2 + 1 := ToUint16 (qy2d (list2d this ! j))]"
  have step: "QPoint2dList_toTypedArray_loop this j array =
              QPoint2dList_toTypedArray_loop this (Suc j) ?a"
    using 0 by (subst QPoint2dList_toTypedArray_loop.simps) (simp add: Let_def QPoint2dList_length_def)
  have "QPoint2dList_toTypedArray_loop this (Suc j) ?a ! (j * 2) = ?a ! (j * 2)"
    and "QPoint2dList_toTypedArray_loop this (Suc j) ?a ! (j * 2 + 1) = ?a ! (j * 2 + 1)"
    by (simp_all add: QPoint2dList_toTypedArray_loop_keeps)
  then show ?case
    using 0 ij step by simp
next
  case (Suc n)
  then have lt: "i < j" by simp
  let ?a = "array[i * 2 := ToUint16 (qx2d (list2d this ! i)),
                  i * 2 + 1 := ToUint16 (qy2d (list2d this ! i))]"
  have step: "QPoint2dList_toTypedArray_loop this i array =
              QPoint2dList_toTypedArray_loop this (Suc i) ?a"
    using Suc.prems lt
    by (subst QPoint2dList_toTypedArray_loop.simps) (simp add: Let_def QPoint2dList_length_def)
  have "n = j - Suc i" using Suc.hyps(2) by simp
  moreover have "length ?a = length (list2d this) * 2" using Suc.prems by simp
  moreover have "Suc i \<le> j" using lt by simp
  ultimately show ?case
    unfolding step using Suc.prems(3) by (rule Suc.hyps(1))
qed

lemma QPoint2dList_toTypedArray_nth:
  assumes "j < length (list2d this)"
  shows "QPoint2dList_toTypedArray this ! (j * 2) = ToUint16 (qx2d (list2d this ! j)) \<and>
         QPoint2dList_toTypedArray this ! (j * 2 + 1) = ToUint16 (qy2d (list2d this ! j))"
  unfolding QPoint2dList_toTypedArray_def
  by (rule QPoint2dList_toTypedArray_loop_nth) (use assms in \<open>simp_all add: QPoint2dList_length_def\<close>)

lemma QPoint2dList_toTypedArray_length:
  "length (QPoint2dList_toTypedArray this) = QPoint2dList_length this * 2"
  by (simp add: QPoint2dList_toTypedArray_def QPoint2dList_toTypedArray_loop_length)

lemma QPoint3dList_toTypedArray_loop_length:
  "length (QPoint3dList_toTypedArray_loop this i array) = length array"
proof (induction "length (list3d this) - i" arbitrary: i array)
  case 0
  then show ?case
    by (subst QPoint3dList_toTypedArray_loop.simps) (simp add: QPoint3dList_length_def)
next
  case (Suc n)
  then have "n = length (list3d this) - Suc i" by simp
  then show ?case
    using Suc.hyps(1)
    by (subst QPoint3dList_toTypedArray_loop.simps) (simp add: Let_def)
qed

lemma QPoint3dList_toTypedArray_loop_keeps:
  "k < i * 3 \<Longrightarrow> QPoint3dList_toTypedArray_loop this i array ! k = array ! k"
proof (induction "length (list3d this) - i" arbitrary: i array)
  case 0
  then show ?case
    by (subst QPoint3dList_toTypedArray_loop.simps) (simp add: QPoint3dList_length_def)
next
  case (Suc n)
  then have "n = length (list3d this) - Suc i" and "k < Suc i * 3" by simp_all
  then have "QPoint3dList_toTypedArray_loop this (Suc i)
               (array[i * 3 + 0 := ToUint16 (qx3d (list3d this ! i)),
                      i * 3 + 1 := ToUint16 (qy3d (list3d this ! i)),
                      i * 3 + 2 := ToUint16 (qz3d (list3d this ! i))]) ! k =
             (array[i * 3 + 0 := ToUint16 (qx3d (list3d this ! i)),
                    i * 3 + 1 := ToUint16 (qy3d (list3d this ! i)),
                    i * 3 + 2 := ToUint16 (qz3d (list3d this ! i))]) ! k"
    by (rule Suc.hyps(1))
  then show ?case
    using Suc.prems
    by (subst QPoint3dList_toTypedArray_loop.simps) (simp add: Let_def)
qed

lemma QPoint3dList_toTypedArray_loop_nth:
  assumes "length array = length (list3d this) * 3" "i \<le> j" "j < length (list3d this)"
  shows "QPoint3dList_toTypedArray_loop this i array ! (j * 3) = ToUint16 (qx3d (list3d this ! j)) \<and>
         QPoint3dList_toTypedArray_loop this i array ! (j * 3 + 1) = ToUint16 (qy3d (list3d this ! j)) \<and>
         QPoint3dList_toTypedArray_loop this i array ! (j * 3 + 2) = ToUint16 (qz3d (list3d this ! j))"
  using assms
proof (induction "j - i" arbitrary: i array)
  case 0
  then have ij: "i = j" by simp
  let ?a = "array[j * 3 + 0 := ToUint16 (qx3d (list3d this ! j)),
                  j * 3 + 1 := ToUint16 (qy3d (list3d this ! j)),
                  j * 3 + 2 := ToUint16 (qz3d (list3d this ! j))]"
  have step: "QPoint3dList_toTypedArray_loop this j array =
              QPoint3dList_toTypedArray_loop this (Suc j) ?a"
    using 0 by (subst QPoint3dList_toTypedArray_loop.simps) (simp add: Let_def QPoint3dList_length_def)
  have "QPoint3dList_toTypedArray_loop this (Suc j) ?a ! (j * 3) = ?a ! (j * 3)"
    and "QPoint3dList_toTypedArray_loop this (Suc j) ?a ! (j * 3 + 1) = ?a ! (j * 3 + 1)"
    and "QPoint3dList_toTypedArray_loop this (Suc j) ?a ! (j * 3 + 2) = ?a ! (j * 3 + 2)"
    by (simp_all add: QPoint3dList_toTypedArray_loop_keeps)
  then show ?case
    using 0 ij step by simp
next
  case (Suc n)
  then have lt: "i < j" by simp
  let ?a = "array[i * 3 + 0 := ToUint16 (qx3d (list3d this ! i)),
                  i * 3 + 1 := ToUint16 (qy3d (list3d this ! i)),
                  i * 3 + 2 := ToUint16 (qz3d (list3d this ! i))]"
  have step: "QPoint3dList_toTypedArray_loop this i array =
              QPoint3dList_toTypedArray_loop this (Suc i) ?a"
    using Suc.prems lt
    by (subst QPoint3dList_toTypedArray_loop.simps) (simp add: Let_def QPoint3dList_length_def)
  have "n = j - Suc i" using Suc.hyps(2) by simp
  moreover have "length ?a = length (list3d this) * 3" using Suc.prems by simp
  moreover have "Suc i \<le> j" using lt by simp
  ultimately show ?case
    unfolding step using Suc.prems(3) by (rule Suc.hyps(1))
qed

lemma QPoint3dList_toTypedArray_nth:
  assumes "j < length (list3d this)"
  shows "QPoint3dList_toTypedArray this ! (j * 3) = ToUint16 (qx3d (list3d this ! j)) \<and>
         QPoint3dList_toTypedArray this ! (j * 3 + 1) = ToUint16 (qy3d (list3d this ! j)) \<and>
         QPoint3dList_toTypedArray this ! (j * 3 + 2) = ToUint16 (qz3d (list3d this ! j))"
  unfolding QPoint3dList_toTypedArray_def
  by (rule QPoint3dList_toTypedArray_loop_nth) (use assms in \<open>simp_all add: QPoint3dList_length_def\<close>)

lemma QPoint3dList_toTypedArray_length:
  "length (QPoint3dList_toTypedArray this) = QPoint3dList_length this * 3"
  by (simp add: QPoint3dList_toTypedArray_def QPoint3dList_toTypedArray_loop_length)

text \<open>
  Claim C6. For a list whose points satisfy the invariant, \<open>toTypedArray\<close> returns a
  buffer of 16-bit words of length \<open>length * 2\<close> (2D) or \<open>length * 3\<close> (3D), and the
  element at \<open>i * axisCount + k\<close> is component \<open>k\<close> of the point at index \<open>i\<close>.
\<close>

theorem toTypedArray_interleaves:
  assumes "\<forall>p \<in> set (list2d l2). QPoint2d_valid p" "\<forall>p \<in> set (list3d l3). QPoint3d_valid p"
  shows "length (QPoint2dList_toTypedArray l2) = QPoint2dList_length l2 * 2 \<and>
         (\<forall>i < QPoint2dList_length l2.
            real (unat (QPoint2dList_toTypedArray l2 ! (i * 2 + 0))) = qx2d (list2d l2 ! i) \<and>
            real (unat (QPoint2dList_toTypedArray l2 ! (i * 2 + 1))) = qy2d (list2d l2 ! i)) \<and>
         length (QPoint3dList_toTypedArray l3) = QPoint3dList_length l3 * 3 \<and>
         (\<forall>i < QPoint3dList_length l3.
            real (unat (QPoint3dList_toTypedArray l3 ! (i * 3 + 0))) = qx3d (list3d l3 ! i) \<and>
            real (unat (QPoint3dList_toTypedArray l3 ! (i * 3 + 1))) = qy3d (list3d l3 ! i) \<and>
            real (unat (QPoint3dList_toTypedArray l3 ! (i * 3 + 2))) = qz3d (list3d l3 ! i))"
proof (intro conjI allI impI)
  show "length (QPoint2dList_toTypedArray l2) = QPoint2dList_length l2 * 2"
    by (rule QPoint2dList_toTypedArray_length)
  show "length (QPoint3dList_toTypedArray l3) = QPoint3dList_length l3 * 3"
    by (rule QPoint3dList_toTypedArray_length)
next
  fix i assume "i < QPoint2dList_length l2"
  then have i: "i < length (list2d l2)" by (simp add: QPoint2dList_length_def)
  then have "QPoint2d_valid (list2d l2 ! i)" using assms(1) by simp
  then have v: "isQuantized (qx2d (list2d l2 ! i))" "isQuantized (qy2d (list2d l2 ! i))"
    by (simp_all add: QPoint2d_valid_def)
  have "QPoint2dList_toTypedArray l2 ! (i * 2 + 0) = ToUint16 (qx2d (list2d l2 ! i))"
    using QPoint2dList_toTypedArray_nth [OF i] by simp
  then show "real (unat (QPoint2dList_toTypedArray l2 ! (i * 2 + 0))) = qx2d (list2d l2 ! i)"
    using ToUint16_isQuantized [OF v(1)] by (simp only:)
  have "QPoint2dList_toTypedArray l2 ! (i * 2 + 1) = ToUint16 (qy2d (list2d l2 ! i))"
    using QPoint2dList_toTypedArray_nth [OF i] by simp
  then show "real (unat (QPoint2dList_toTypedArray l2 ! (i * 2 + 1))) = qy2d (list2d l2 ! i)"
    using ToUint16_isQuantized [OF v(2)] by (simp only:)
next
  fix i assume "i < QPoint3dList_length l3"
  then have i: "i < length (list3d l3)" by (simp add: QPoint3dList_length_def)
  then have "QPoint3d_valid (list3d l3 ! i)" using assms(2) by simp
  then have v: "isQuantized (qx3d (list3d l3 ! i))" "isQuantized (qy3d (list3d l3 ! i))"
      "isQuantized (qz3d (list3d l3 ! i))"
    by (simp_all add: QPoint3d_valid_def)
  have "QPoint3dList_toTypedArray l3 ! (i * 3 + 0) = ToUint16 (qx3d (list3d l3 ! i))"
    using QPoint3dList_toTypedArray_nth [OF i] by simp
  then show "real (unat (QPoint3dList_toTypedArray l3 ! (i * 3 + 0))) = qx3d (list3d l3 ! i)"
    using ToUint16_isQuantized [OF v(1)] by (simp only:)
  have "QPoint3dList_toTypedArray l3 ! (i * 3 + 1) = ToUint16 (qy3d (list3d l3 ! i))"
    using QPoint3dList_toTypedArray_nth [OF i] by simp
  then show "real (unat (QPoint3dList_toTypedArray l3 ! (i * 3 + 1))) = qy3d (list3d l3 ! i)"
    using ToUint16_isQuantized [OF v(2)] by (simp only:)
  have "QPoint3dList_toTypedArray l3 ! (i * 3 + 2) = ToUint16 (qz3d (list3d l3 ! i))"
    using QPoint3dList_toTypedArray_nth [OF i] by simp
  then show "real (unat (QPoint3dList_toTypedArray l3 ! (i * 3 + 2))) = qz3d (list3d l3 ! i)"
    using ToUint16_isQuantized [OF v(3)] by (simp only:)
qed

theorem toTypedArray_interleaves_witness:
  "QPoint2d_valid \<lparr>qx2d = 0, qy2d = 65535\<rparr> \<and>
   QPoint2d_valid \<lparr>qx2d = 13107, qy2d = 26214\<rparr> \<and>
   QPoint3d_valid \<lparr>qx3d = 0, qy3d = 13107, qz3d = 65535\<rparr> \<and>
   QPoint2dList_toTypedArray \<lparr>params2d = QParams2d_fromZeroToOne,
       list2d = [\<lparr>qx2d = 0, qy2d = 65535\<rparr>, \<lparr>qx2d = 13107, qy2d = 26214\<rparr>]\<rparr> =
     [0, 65535, 13107, 26214] \<and>
   QPoint3dList_toTypedArray \<lparr>params3d = QParams3d_fromZeroToOne,
       list3d = [\<lparr>qx3d = 0, qy3d = 13107, qz3d = 65535\<rparr>]\<rparr> = [0, 13107, 65535] \<and>
   real (unat (QPoint2dList_toTypedArray \<lparr>params2d = QParams2d_fromZeroToOne,
       list2d = [\<lparr>qx2d = 0, qy2d = 65535\<rparr>, \<lparr>qx2d = 13107, qy2d = 26214\<rparr>]\<rparr> ! (1 * 2 + 1)))
     = 26214 \<and>
   real (unat (QPoint3dList_toTypedArray \<lparr>params3d = QParams3d_fromZeroToOne,
       list3d = [\<lparr>qx3d = 0, qy3d = 13107, qz3d = 65535\<rparr>]\<rparr> ! (0 * 3 + 2))) = 65535"
proof -
  let ?l2 = "\<lparr>params2d = QParams2d_fromZeroToOne,
       list2d = [\<lparr>qx2d = 0, qy2d = 65535\<rparr>, \<lparr>qx2d = 13107, qy2d = 26214\<rparr>]\<rparr>"
  let ?l3 = "\<lparr>params3d = QParams3d_fromZeroToOne,
       list3d = [\<lparr>qx3d = 0, qy3d = 13107, qz3d = 65535\<rparr>]\<rparr>"
  have v: "QPoint2d_valid \<lparr>qx2d = 0, qy2d = 65535\<rparr>"
      "QPoint2d_valid \<lparr>qx2d = 13107, qy2d = 26214\<rparr>"
      "QPoint3d_valid \<lparr>qx3d = 0, qy3d = 13107, qz3d = 65535\<rparr>"
    by (simp_all add: QPoint2d_valid_def QPoint3d_valid_def isQuantized_0)
  have h1: "\<forall>p \<in> set (list2d ?l2). QPoint2d_valid p"
    using v by simp
  have h2: "\<forall>p \<in> set (list3d ?l3). QPoint3d_valid p"
    using v by simp
  have e2: "QPoint2dList_toTypedArray ?l2 = [0, 65535, 13107, 26214]"
    by (simp add: QPoint2dList_toTypedArray_def QPoint2dList_toTypedArray_loop.simps
          QPoint2dList_length_def ToUint16_def eval_nat_numeral)
  have e3: "QPoint3dList_toTypedArray ?l3 = [0, 13107, 65535]"
    by (simp add: QPoint3dList_toTypedArray_def QPoint3dList_toTypedArray_loop.simps
          QPoint3dList_length_def ToUint16_def eval_nat_numeral)
  note w = toTypedArray_interleaves [OF h1 h2]
  have i2: "(1::nat) < QPoint2dList_length ?l2" by (simp add: QPoint2dList_length_def)
  have i3: "(0::nat) < QPoint3dList_length ?l3" by (simp add: QPoint3dList_length_def)
  have w2: "real (unat (QPoint2dList_toTypedArray ?l2 ! (1 * 2 + 1))) = qy2d (list2d ?l2 ! 1)"
    using w i2 by blast
  have w3: "real (unat (QPoint3dList_toTypedArray ?l3 ! (0 * 3 + 2))) = qz3d (list3d ?l3 ! 0)"
    using w i3 by blast
  have v2: "qy2d (list2d ?l2 ! 1) = 26214" and v3: "qz3d (list3d ?l3 ! 0) = 65535"
    by simp_all
  have r2: "real (unat (QPoint2dList_toTypedArray ?l2 ! (1 * 2 + 1))) = 26214"
    using w2 v2 by (simp only:)
  have r3: "real (unat (QPoint3dList_toTypedArray ?l3 ! (0 * 3 + 2))) = 65535"
    using w3 v3 by (simp only:)
  show ?thesis using v e2 e3 r2 r3 by blast
qed

text \<open>
  Claim C9, as amended. With assertions compiled out, \<open>unquantize\<close> at an index at or
  past the length does not throw: it returns the caller's \<open>out\<close> point untouched when one
  is supplied and a new zero point otherwise, and the list is unchanged.
\<close>

theorem unquantize_past_the_end:
  assumes "int (QPoint2dList_length l2) \<le> index2" "int (QPoint3dList_length l3) \<le> index3"
  shows "QPoint2dList_unquantize False index2 out2 l2 =
           Inr (case out2 of Some r \<Rightarrow> r | None \<Rightarrow> Point2d_new, l2) \<and>
         QPoint3dList_unquantize False index3 out3 l3 =
           Inr (case out3 of Some r \<Rightarrow> r | None \<Rightarrow> Point3d_new, l3)"
  using assms
  by (simp add: QPoint2dList_unquantize_def QPoint3dList_unquantize_def assert_def)

theorem unquantize_past_the_end_witness:
  "int (QPoint2dList_length (QPoint2dList_new QParams2d_fromZeroToOne)) \<le> 0 \<and>
   int (QPoint3dList_length (QPoint3dList_new QParams3d_fromZeroToOne)) \<le> 7 \<and>
   QPoint2dList_unquantize False 0 None (QPoint2dList_new QParams2d_fromZeroToOne) =
     Inr (\<lparr>x2d = 0, y2d = 0\<rparr>, QPoint2dList_new QParams2d_fromZeroToOne) \<and>
   QPoint3dList_unquantize False 7 (Some \<lparr>x3d = 1, y3d = 2, z3d = 3\<rparr>)
       (QPoint3dList_new QParams3d_fromZeroToOne) =
     Inr (\<lparr>x3d = 1, y3d = 2, z3d = 3\<rparr>, QPoint3dList_new QParams3d_fromZeroToOne)"
proof -
  have h1: "int (QPoint2dList_length (QPoint2dList_new QParams2d_fromZeroToOne)) \<le> 0"
    by (simp add: QPoint2dList_length_def QPoint2dList_new_def)
  have h2: "int (QPoint3dList_length (QPoint3dList_new QParams3d_fromZeroToOne)) \<le> 7"
    by (simp add: QPoint3dList_length_def QPoint3dList_new_def)
  show ?thesis
    using h1 h2
      unquantize_past_the_end [OF h1 h2, where ?out2.0 = None
        and ?out3.0 = "Some \<lparr>x3d = 1, y3d = 2, z3d = 3\<rparr>"]
    by (simp add: Point2d_new_def)
qed

text \<open>
  Claim C9 as stated fails when the caller supplies \<open>out\<close>: on an empty list, index
  \<open>0\<close> with \<open>out = (3, 4)\<close> returns \<open>(3, 4)\<close>, which is not the zero point.
\<close>

theorem unquantize_past_the_end_returns_out:
  "int (QPoint2dList_length (QPoint2dList_new QParams2d_fromZeroToOne)) \<le> 0 \<and>
   QPoint2dList_unquantize False 0 (Some \<lparr>x2d = 3, y2d = 4\<rparr>)
       (QPoint2dList_new QParams2d_fromZeroToOne) =
     Inr (\<lparr>x2d = 3, y2d = 4\<rparr>, QPoint2dList_new QParams2d_fromZeroToOne) \<and>
   \<lparr>x2d = 3, y2d = 4\<rparr> \<noteq> Point2d_new"
  by (simp add: QPoint2dList_unquantize_def QPoint2dList_length_def QPoint2dList_new_def
        assert_def Point2d_new_def)

text \<open>
  With assertions checked, the same call fails on its assertion.
\<close>

lemma QPoint2dList_unquantize_asserts:
  "int (QPoint2dList_length this) \<le> index \<Longrightarrow>
   QPoint2dList_unquantize True index out this = Inl AssertionFailed"
  by (simp add: QPoint2dList_unquantize_def assert_def)

lemma QPoint3dList_unquantize_asserts:
  "int (QPoint3dList_length this) \<le> index \<Longrightarrow>
   QPoint3dList_unquantize True index out this = Inl AssertionFailed"
  by (simp add: QPoint3dList_unquantize_def assert_def)

section \<open>Rounding to the nearest double\<close>

text \<open>
  The binary exponent brackets its argument, and is the only integer that does.
\<close>

lemma ilog2_bounds:
  assumes "0 < x"
  shows "2 powi ilog2 x \<le> x \<and> x < 2 powi (ilog2 x + 1)"
proof (cases "1 \<le> x")
  case True
  then have pos: "0 < \<lfloor>x\<rfloor>" by simp
  let ?b = "bitlen \<lfloor>x\<rfloor>"
  from bitlen_bounds [OF pos] have b: "2 ^ nat (?b - 1) \<le> \<lfloor>x\<rfloor>" "\<lfloor>x\<rfloor> < 2 ^ nat ?b"
    by simp_all
  have b1: "1 \<le> ?b" using pos by (auto simp: bitlen_alt_def)
  have "(2::real) ^ nat (?b - 1) \<le> x" using b(1) by (simp add: le_floor_iff)
  then have lo: "2 powi (?b - 1) \<le> x"
    using b1 by (simp add: power_int_def)
  have "x < real_of_int (2 ^ nat ?b)" using b(2) by (simp add: floor_less_iff)
  then have hi: "x < 2 powi ?b"
    using b1 by (simp add: power_int_def)
  show ?thesis using True lo hi by (simp add: ilog2_def)
next
  case False
  then have x1: "x < 1" by simp
  let ?m = "\<lceil>1 / x\<rceil> - 1"
  have y: "1 < 1 / x" using assms x1 by simp
  then have m1: "0 < ?m" by linarith
  let ?b = "bitlen ?m"
  from bitlen_bounds [OF m1] have b: "2 ^ nat (?b - 1) \<le> ?m" "?m < 2 ^ nat ?b"
    by simp_all
  have b1: "1 \<le> ?b" using m1 by (auto simp: bitlen_alt_def)
  have my: "real_of_int ?m < 1 / x" "1 / x \<le> real_of_int ?m + 1" by linarith+
  have "\<lceil>1 / x\<rceil> \<le> 2 ^ nat ?b" using b(2) by simp
  then have "1 / x \<le> 2 ^ nat ?b" by (simp add: ceiling_le_iff)
  then have "1 / x \<le> 2 powi ?b" using b1 by (simp add: power_int_def)
  then have "1 / (2 powi ?b) \<le> x"
    using assms by (simp add: field_simps)
  then have lo: "2 powi (- ?b) \<le> x" by (simp add: power_int_minus_divide)
  have "real_of_int (2 ^ nat (?b - 1)) \<le> real_of_int ?m" using b(1) by (simp only: of_int_le_iff)
  then have "real_of_int (2 ^ nat (?b - 1)) < 1 / x" using my(1) by linarith
  then have "2 ^ nat (?b - 1) < 1 / x" by simp
  then have "2 powi (?b - 1) < 1 / x" using b1 by (simp add: power_int_def)
  then have "x < 1 / (2 powi (?b - 1))"
    using assms by (simp add: field_simps)
  then have hi: "x < 2 powi (- ?b + 1)"
    using power_int_minus_divide [of "2::real" "?b - 1"] by simp
  show ?thesis using False lo hi by (simp add: ilog2_def)
qed

lemma pow2_less_cancel: "(2::real) powi a < 2 powi b \<Longrightarrow> a < b"
proof (rule ccontr)
  assume lt: "(2::real) powi a < 2 powi b" and "\<not> a < b"
  then have "b \<le> a" by simp
  then have "(2::real) powi b \<le> 2 powi a" by (intro power_int_increasing) simp_all
  with lt show False by simp
qed

lemma ilog2_eqI:
  assumes "2 powi k \<le> x" "x < 2 powi (k + 1)"
  shows "ilog2 x = k"
proof -
  have pos: "0 < x" using assms(1) zero_less_power_int [of "2::real" k] by linarith
  from ilog2_bounds [OF pos] have b: "2 powi ilog2 x \<le> x" "x < 2 powi (ilog2 x + 1)"
    by simp_all
  have "(2::real) powi k < 2 powi (ilog2 x + 1)" using assms(1) b(2) by linarith
  then have "k < ilog2 x + 1" by (rule pow2_less_cancel)
  moreover have "(2::real) powi ilog2 x < 2 powi (k + 1)" using assms(2) b(1) by linarith
  then have "ilog2 x < k + 1" by (rule pow2_less_cancel)
  ultimately show ?thesis by simp
qed

text \<open>
  Rounding to the nearest integer keeps integers, is within one half of its argument,
  and is monotone.
\<close>

lemma rne_of_int [simp]: "rne (of_int n) = n"
  by (simp add: rne_def)

lemma rne_0 [simp]: "rne 0 = 0"
  using rne_of_int [of 0] by simp

lemma rne_near: "\<bar>of_int (rne y) - y\<bar> \<le> 1 / 2"
  unfolding rne_def Let_def by (auto; linarith)

lemma rne_mono:
  assumes "y \<le> z"
  shows "rne y \<le> rne z"
proof (rule ccontr)
  assume "\<not> rne y \<le> rne z"
  then have gt: "rne z + 1 \<le> rne y" by simp
  then have "real_of_int (rne z) + 1 \<le> real_of_int (rne y)" by linarith
  moreover have "real_of_int (rne y) \<le> y + 1 / 2" using rne_near [of y] by linarith
  moreover have "z - 1 / 2 \<le> real_of_int (rne z)" using rne_near [of z] by linarith
  ultimately have "y = z" using assms by linarith
  with gt show False by simp
qed

lemma rne_le_int: "y \<le> of_int n \<Longrightarrow> rne y \<le> n"
  using rne_mono [of y "of_int n"] by simp

lemma rne_ge_int: "of_int n \<le> y \<Longrightarrow> n \<le> rne y"
  using rne_mono [of "of_int n" y] by simp

lemma pow2_pos [simp]: "0 < (2::real) powi k"
  by simp

lemma pow2_not_le_0 [simp]: "\<not> (2::real) powi k \<le> 0"
  using pow2_pos [of k] by (simp only: not_le)

lemma ulp_pos [simp]: "0 < ulp x"
  by (simp add: ulp_def)

lemma ulp_nonneg [simp]: "0 \<le> ulp x"
  using ulp_pos [of x] by (rule less_imp_le)

lemma ulp_neq_0 [simp]: "ulp x \<noteq> 0"
  by (simp add: ulp_def)

lemma pow2_div_ulp: "2 powi k / ulp x = 2 powi (k - (expo x - 52))"
  unfolding ulp_def by (rule power_int_diff [symmetric]) simp

lemma pow2_times_ulp: "2 powi k * ulp x = 2 powi (k + (expo x - 52))"
  unfolding ulp_def by (rule power_int_add [symmetric]) simp

lemma round_grid_0 [simp]: "round_grid 0 = 0"
  by (simp add: round_grid_def)

lemma round_grid_nonneg: "0 \<le> x \<Longrightarrow> 0 \<le> round_grid x"
proof -
  assume "0 \<le> x"
  then have "real_of_int 0 \<le> x / ulp x" by simp
  then have "0 \<le> rne (x / ulp x)" by (rule rne_ge_int)
  then show ?thesis by (simp add: round_grid_def)
qed

lemma round_grid_nonpos: "x \<le> 0 \<Longrightarrow> round_grid x \<le> 0"
proof -
  assume "x \<le> 0"
  then have "x / ulp x \<le> real_of_int 0" by (simp add: divide_le_0_iff)
  then have "rne (x / ulp x) \<le> 0" by (rule rne_le_int)
  then show ?thesis by (simp add: round_grid_def mult_le_0_iff)
qed

lemma expo_ge: "- 1022 \<le> expo x"
  by (simp add: expo_def)

lemma expo_upper:
  assumes "0 < x"
  shows "x < 2 powi (expo x + 1)"
proof -
  have "x < 2 powi (ilog2 x + 1)" using ilog2_bounds [OF assms] by simp
  also have "\<dots> \<le> 2 powi (expo x + 1)"
    using assms by (intro power_int_increasing) (simp_all add: expo_def)
  finally show ?thesis .
qed

lemma expo_lower:
  assumes "2 powi (- 1022) \<le> x"
  shows "2 powi expo x \<le> x"
proof -
  have pos: "0 < x" using assms zero_less_power_int [of "2::real" "- 1022"] by linarith
  have "(2::real) powi (- 1022) < 2 powi (ilog2 x + 1)"
    using assms ilog2_bounds [OF pos] by linarith
  then have "- 1022 < ilog2 x + 1" by (rule pow2_less_cancel)
  then have "expo x = ilog2 x" using pos by (simp add: expo_def)
  then show ?thesis using ilog2_bounds [OF pos] by simp
qed

lemma expo_normal:
  assumes "0 < x" "- 1022 < expo x"
  shows "2 powi expo x \<le> x"
proof -
  have "expo x = ilog2 x" using assms by (simp add: expo_def split: if_splits)
  then show ?thesis using ilog2_bounds [OF assms(1)] by simp
qed

lemma expo_mono:
  assumes "0 < x" "x \<le> y"
  shows "expo x \<le> expo y"
proof -
  have y: "0 < y" using assms by simp
  have "(2::real) powi ilog2 x < 2 powi (ilog2 y + 1)"
    using ilog2_bounds [OF assms(1)] ilog2_bounds [OF y] assms(2) by linarith
  then have "ilog2 x < ilog2 y + 1" by (rule pow2_less_cancel)
  then show ?thesis using assms y by (simp add: expo_def)
qed

lemma expo_eqI:
  assumes "2 powi k \<le> \<bar>x\<bar>" "\<bar>x\<bar> < 2 powi (k + 1)" "- 1022 \<le> k"
  shows "expo x = k"
proof -
  have "x \<noteq> 0" using assms(1) zero_less_power_int [of "2::real" k] by auto
  moreover have "ilog2 \<bar>x\<bar> = k" using assms(1,2) by (rule ilog2_eqI)
  ultimately show ?thesis using assms(3) by (simp add: expo_def)
qed

text \<open>
  Rounding is monotone: within one binade by the monotonicity of \<open>rne\<close>, and across
  binades because a rounded value never leaves the closed binade of its argument.
\<close>

lemma round_grid_le_pow:
  assumes "0 < x"
  shows "round_grid x \<le> 2 powi (expo x + 1)"
proof -
  have "x / ulp x \<le> 2 powi (expo x + 1) / ulp x"
    using expo_upper [OF assms] by (simp add: divide_right_mono)
  also have "2 powi (expo x + 1) / ulp x = (2::real) powi 53"
    by (simp add: pow2_div_ulp)
  also have "\<dots> = real_of_int (2 ^ 53)" by simp
  finally have "rne (x / ulp x) \<le> 2 ^ 53" by (rule rne_le_int)
  then have "real_of_int (rne (x / ulp x)) \<le> 2 powi 53" by simp
  then have "round_grid x \<le> 2 powi 53 * ulp x"
    by (simp add: round_grid_def mult_right_mono)
  also have "\<dots> = 2 powi (expo x + 1)"
    by (simp only: pow2_times_ulp) (simp add: add.commute)
  finally show ?thesis .
qed

lemma round_grid_ge_pow:
  assumes "2 powi expo x \<le> x"
  shows "2 powi expo x \<le> round_grid x"
proof -
  have "2 powi expo x / ulp x \<le> x / ulp x"
    using assms by (simp add: divide_right_mono)
  moreover have "2 powi expo x / ulp x = (2::real) powi 52"
    by (simp add: pow2_div_ulp)
  moreover have "(2::real) powi 52 = real_of_int (2 ^ 52)" by simp
  ultimately have "real_of_int (2 ^ 52) \<le> x / ulp x" by simp
  then have "2 ^ 52 \<le> rne (x / ulp x)" by (rule rne_ge_int)
  then have "2 powi 52 \<le> real_of_int (rne (x / ulp x))" by simp
  then have "2 powi 52 * ulp x \<le> round_grid x"
    by (simp add: round_grid_def mult_right_mono)
  moreover have "2 powi 52 * ulp x = 2 powi expo x"
    by (simp only: pow2_times_ulp) simp
  ultimately show ?thesis by simp
qed

lemma round_grid_mono_pos:
  assumes "0 \<le> x" "x \<le> y"
  shows "round_grid x \<le> round_grid y"
proof (cases "x = 0")
  case True
  then show ?thesis using assms round_grid_nonneg [of y] by simp
next
  case False
  then have x: "0 < x" and y: "0 < y" using assms by simp_all
  have le: "expo x \<le> expo y" using x assms(2) by (rule expo_mono)
  show ?thesis
  proof (cases "expo x = expo y")
    case True
    then have u: "ulp x = ulp y" by (simp add: ulp_def)
    have "x / ulp y \<le> y / ulp y" using assms(2) by (simp add: divide_right_mono)
    then have "rne (x / ulp y) \<le> rne (y / ulp y)" by (rule rne_mono)
    then show ?thesis by (simp add: round_grid_def u mult_right_mono)
  next
    case False
    then have lt: "expo x + 1 \<le> expo y" using le by simp
    then have "- 1022 < expo y" using expo_ge [of x] by simp
    then have "2 powi expo y \<le> y" using y expo_normal by simp
    then have "2 powi expo y \<le> round_grid y" by (rule round_grid_ge_pow)
    moreover have "round_grid x \<le> 2 powi (expo x + 1)" using x by (rule round_grid_le_pow)
    moreover have "(2::real) powi (expo x + 1) \<le> 2 powi expo y"
      using lt by (intro power_int_increasing) simp_all
    ultimately show ?thesis by linarith
  qed
qed

lemma round_grid_mono:
  assumes "x \<le> y" "0 \<le> y"
  shows "round_grid x \<le> round_grid y"
proof (cases "0 \<le> x")
  case True
  then show ?thesis using assms(1) by (rule round_grid_mono_pos)
next
  case False
  then have "round_grid x \<le> 0" by (simp add: round_grid_nonpos)
  then show ?thesis using round_grid_nonneg [OF assms(2)] by linarith
qed

text \<open>
  A value \<open>m * 2 ^ k\<close> with \<open>|m| < 2 ^ 53\<close> and \<open>k \<ge> -1074\<close> is on the grid: rounding
  leaves it as it is. In the normal range rounding loses at most one part in \<open>2 ^ 53\<close>.
\<close>

lemma round_grid_exact:
  assumes "x = of_int m * 2 powi k" "\<bar>m\<bar> < 2 ^ 53" "- 1074 \<le> k"
  shows "round_grid x = x"
proof (cases "m = 0")
  case True
  then show ?thesis using assms(1) by simp
next
  case False
  then have x0: "x \<noteq> 0" using assms(1) by simp
  have ek: "expo x - 52 \<le> k"
  proof (cases "expo x = - 1022")
    case True
    then show ?thesis using assms(3) by simp
  next
    case False
    then have "- 1022 < expo x" using expo_ge [of x] by simp
    then have e: "expo x = ilog2 \<bar>x\<bar>" using x0 by (simp add: expo_def split: if_splits)
    have "2 powi ilog2 \<bar>x\<bar> \<le> \<bar>x\<bar>" using ilog2_bounds [of "\<bar>x\<bar>"] x0 by simp
    also have "\<bar>x\<bar> = real_of_int \<bar>m\<bar> * 2 powi k" by (simp add: assms(1) abs_mult)
    also have "\<dots> < real_of_int (2 ^ 53) * 2 powi k"
      using assms(2) by (intro mult_strict_right_mono) (simp_all only: of_int_less_iff zero_less_power_int zero_less_numeral)
    also have "\<dots> = 2 powi (k + 53)" by (simp add: power_int_add)
    finally have "ilog2 \<bar>x\<bar> < k + 53" by (rule pow2_less_cancel)
    then show ?thesis using e by simp
  qed
  define j where "j = nat (k - (expo x - 52))"
  have "x / ulp x = of_int m * (2 powi k / 2 powi (expo x - 52))"
    by (simp add: assms(1) ulp_def)
  also have "2 powi k / 2 powi (expo x - 52) = (2::real) powi (k - (expo x - 52))"
    by (simp add: power_int_diff)
  also have "\<dots> = 2 ^ j" using ek by (simp add: j_def power_int_def)
  finally have "x / ulp x = real_of_int (m * 2 ^ j)" by simp
  then have "rne (x / ulp x) = m * 2 ^ j" by (simp only: rne_of_int)
  then have "round_grid x = real_of_int (m * 2 ^ j) * ulp x" by (simp add: round_grid_def)
  also have "\<dots> = x / ulp x * ulp x" using \<open>x / ulp x = real_of_int (m * 2 ^ j)\<close> by simp
  also have "\<dots> = x" by simp
  finally show ?thesis .
qed

lemma round_grid_rel:
  assumes "2 powi (- 1022) \<le> x"
  shows "x * (1 - 2 powi (- 53)) \<le> round_grid x"
proof -
  have e: "2 powi expo x \<le> x" using assms by (rule expo_lower)
  have "\<bar>real_of_int (rne (x / ulp x)) - x / ulp x\<bar> \<le> 1 / 2" by (rule rne_near)
  then have "x / ulp x - 1 / 2 \<le> real_of_int (rne (x / ulp x))" by linarith
  then have "(x / ulp x - 1 / 2) * ulp x \<le> round_grid x"
    by (simp only: round_grid_def mult_right_mono ulp_pos less_imp_le)
  moreover have "(x / ulp x - 1 / 2) * ulp x = x - ulp x / 2"
    by (simp add: left_diff_distrib)
  moreover have "ulp x / 2 = 2 powi expo x * 2 powi (- 53)"
    by (simp add: ulp_def power_int_diff power_int_minus_divide)
  moreover have "2 powi expo x * 2 powi (- 53) \<le> x * 2 powi (- 53)"
    using e by (intro mult_right_mono) simp_all
  ultimately show ?thesis by (simp add: right_diff_distrib)
qed

lemma round64_not_NaN [simp]: "round64 x \<noteq> NaN"
  by (simp add: round64_def Let_def)

lemma round64_Fin_iff:
  "round64 x = Fin y \<longleftrightarrow> (y = round_grid x \<and> - (2 ^ 1024) < round_grid x \<and> round_grid x < 2 ^ 1024)"
  by (auto simp add: round64_def Let_def)

lemma round64_PInf_iff: "round64 x = PInf \<longleftrightarrow> 2 ^ 1024 \<le> round_grid x"
  by (auto simp add: round64_def Let_def)

lemma round64_NInf_iff: "round64 x = NInf \<longleftrightarrow> round_grid x \<le> - (2 ^ 1024)"
proof -
  have "\<not> ((2::real) ^ 1024 \<le> - (2 ^ 1024))" by simp
  then show ?thesis by (auto simp add: round64_def Let_def)
qed

lemma round64_exact:
  assumes "x = of_int m * 2 powi k" "\<bar>m\<bar> < 2 ^ 53" "- 1074 \<le> k" "\<bar>x\<bar> < 2 ^ 1024"
  shows "round64 x = Fin x"
proof -
  have "round_grid x = x" using assms(1-3) by (rule round_grid_exact)
  then show ?thesis using assms(4) by (simp add: round64_Fin_iff abs_less_iff)
qed

lemma round64_0 [simp]: "round64 0 = Fin 0"
  by (simp add: round64_Fin_iff)

lemma round64_int:
  assumes "\<bar>n\<bar> < 2 ^ 53"
  shows "round64 (of_int n) = Fin (of_int n)"
proof (rule round64_exact [where m = n and k = 0])
  show "real_of_int n = real_of_int n * 2 powi 0" by simp
  show "\<bar>n\<bar> < 2 ^ 53" by fact
  show "- 1074 \<le> (0::int)" by simp
  have "real_of_int \<bar>n\<bar> < real_of_int (2 ^ 53)" using assms by (simp only: of_int_less_iff)
  then show "\<bar>real_of_int n\<bar> < 2 ^ 1024" by simp
qed

lemma round64_half_int:
  assumes "\<bar>n\<bar> < 2 ^ 53"
  shows "round64 (of_int n / 2) = Fin (of_int n / 2)"
proof (rule round64_exact [where m = n and k = "- 1"])
  show "real_of_int n / 2 = real_of_int n * 2 powi (- 1)" by (simp add: power_int_minus_divide)
  show "\<bar>n\<bar> < 2 ^ 53" by fact
  show "- 1074 \<le> (- 1::int)" by simp
  have "real_of_int \<bar>n\<bar> < real_of_int (2 ^ 53)" using assms by (simp only: of_int_less_iff)
  then show "\<bar>real_of_int n / 2\<bar> < 2 ^ 1024" by simp
qed

lemma round64_nonneg: "0 \<le> x \<Longrightarrow> round64 x = PInf \<or> (\<exists>y. round64 x = Fin y \<and> 0 \<le> y)"
  using round_grid_nonneg [of x] by (auto simp add: round64_def Let_def)

lemma round64_nonpos: "x \<le> 0 \<Longrightarrow> round64 x = NInf \<or> (\<exists>y. round64 x = Fin y \<and> y \<le> 0)"
  using round_grid_nonpos [of x] by (auto simp add: round64_def Let_def)

lemma round64_le_exact:
  assumes "x \<le> c" "0 \<le> c" "round_grid c = c" "c < 2 ^ 1024"
  shows "round64 x = NInf \<or> (\<exists>y. round64 x = Fin y \<and> y \<le> c)"
proof -
  have "round_grid x \<le> c" using round_grid_mono [OF assms(1,2)] assms(3) by simp
  then show ?thesis using assms(4) by (auto simp add: round64_def Let_def)
qed

lemma round64_ge_exact:
  assumes "c \<le> x" "0 \<le> c" "round_grid c = c"
  shows "round64 x = PInf \<or> (\<exists>y. round64 x = Fin y \<and> c \<le> y)"
proof -
  have "0 \<le> x" using assms by simp
  with round_grid_mono [OF assms(1)] have "c \<le> round_grid x" using assms(3) by simp
  moreover have "\<not> round_grid x \<le> - (2 ^ 1024)" using calculation assms(2) by simp
  ultimately show ?thesis by (auto simp add: round64_def Let_def)
qed

lemma round64_numeral [simp]:
  "numeral w < (2::int) ^ 53 \<Longrightarrow> round64 (numeral w) = Fin (numeral w)"
  using round64_int [of "numeral w"] by simp

lemma round64_neg_numeral [simp]:
  "numeral w < (2::int) ^ 53 \<Longrightarrow> round64 (- numeral w) = Fin (- numeral w)"
  using round64_int [of "- numeral w"] by simp

lemma round64_1 [simp]: "round64 1 = Fin 1"
  using round64_int [of 1] by simp

lemma round64_half_numeral [simp]:
  "numeral w < (2::int) ^ 53 \<Longrightarrow> round64 (numeral w / 2) = Fin (numeral w / 2)"
  using round64_half_int [of "numeral w"] by simp

lemma round64_neg_half_numeral [simp]:
  "numeral w < (2::int) ^ 53 \<Longrightarrow> round64 (- (numeral w / 2)) = Fin (- (numeral w / 2))"
  using round64_half_int [of "- numeral w"] by simp

lemma round64_half [simp]: "round64 (1 / 2) = Fin (1 / 2)"
  using round64_half_int [of 1] by simp

lemma round64_overflow:
  assumes "2 ^ 1024 \<le> x"
  shows "round64 x = PInf"
proof -
  have "round_grid (2 ^ 1024) = 2 ^ 1024"
    by (rule round_grid_exact [where m = 1 and k = 1024]) simp_all
  moreover have "round_grid (2 ^ 1024) \<le> round_grid x"
    using assms by (intro round_grid_mono_pos) simp_all
  ultimately show ?thesis by (simp add: round64_PInf_iff)
qed

lemma round64_tiny [simp]: "round64 (1 / 2 ^ 1020) = Fin (1 / 2 ^ 1020)"
proof (rule round64_exact [where m = 1 and k = "- 1020"])
  show "1 / 2 ^ 1020 = real_of_int 1 * 2 powi (- 1020)" by (simp add: power_int_minus_divide)
  show "\<bar>1 / (2::real) ^ 1020\<bar> < 2 ^ 1024" by simp
qed simp_all

lemma round64_tie_to_one:
  assumes "x = 1 - 1 / 2 ^ 54"
  shows "round64 x = Fin 1"
proof -
  have e: "expo x = - 1"
    unfolding assms by (rule expo_eqI) (simp_all add: power_int_minus_divide)
  have u: "ulp x = 2 powi (- 53)" by (simp add: ulp_def e)
  have "x / ulp x = x / 2 powi (- 53)" by (simp only: u)
  also have "\<dots> = 18014398509481983 / 2"
    unfolding assms by (simp add: power_int_minus_divide)
  finally have q: "x / ulp x = 18014398509481983 / 2" .
  have "rne (18014398509481983 / 2) = 2 ^ 53" by (simp add: rne_def)
  then have "rne (x / ulp x) = 2 ^ 53" by (simp only: q)
  then have "round_grid x = real_of_int (2 ^ 53) * 2 powi (- 53)"
    by (simp only: round_grid_def u)
  also have "\<dots> = 1" by (simp add: power_int_minus_divide)
  finally show ?thesis by (simp add: round64_Fin_iff)
qed

lemma round64_below_half:
  assumes "a = 1 / 2 - 1 / 2 ^ 54"
  shows "round64 a = Fin a"
proof (rule round64_exact [where m = "2 ^ 53 - 1" and k = "- 54"])
  show "a = real_of_int (2 ^ 53 - 1) * 2 powi (- 54)"
    unfolding assms by (simp add: power_int_minus_divide)
  show "\<bar>a\<bar> < 2 ^ 1024" unfolding assms by simp
qed simp_all

lemma fsub_Fin [simp]: "fsub (Fin a) (Fin b) = round64 (a - b)"
  by (simp add: fsub_def)

lemma round_grid_half [simp]: "round_grid (1 / 2) = 1 / 2"
  by (rule round_grid_exact [where m = 1 and k = "- 1"]) (simp_all add: power_int_minus_divide)

lemma round_grid_65535 [simp]: "round_grid 65535 = 65535"
  by (rule round_grid_exact [where m = 65535 and k = 0]) simp_all

lemma round_grid_65534_5 [simp]: "round_grid (131069 / 2) = 131069 / 2"
  by (rule round_grid_exact [where m = 131069 and k = "- 1"]) (simp_all add: power_int_minus_divide)

lemma round64_65536 [simp]: "round64 65536 = Fin 65536"
  using round64_int [of 65536] by simp

lemma round64_at_most:
  assumes "x \<le> c" "0 \<le> c" "round_grid c = c" "c < 2 ^ 1024"
  shows "at_most (round64 x) c"
  unfolding at_most_def using assms by (rule round64_le_exact)

lemma round64_at_least:
  assumes "c \<le> x" "0 \<le> c" "round_grid c = c"
  shows "at_least (round64 x) c"
  unfolding at_least_def using assms by (rule round64_ge_exact)

lemma round64_at_most_0: "x \<le> 0 \<Longrightarrow> at_most (round64 x) 0"
  unfolding at_most_def by (rule round64_nonpos)

lemma round64_at_least_0: "0 \<le> x \<Longrightarrow> at_least (round64 x) 0"
  unfolding at_least_def by (rule round64_nonneg)

lemma round64_at_least_grid:
  assumes "c \<le> round_grid x" "0 \<le> c"
  shows "at_least (round64 x) c"
proof -
  have "\<not> round_grid x \<le> - (2 ^ 1024)" using assms by simp
  then show ?thesis using assms(1) by (auto simp add: at_least_def round64_def Let_def)
qed

section \<open>Properties of the quantization functions in binary64\<close>

text \<open>
  The guards of \<open>computeScale\<close>, \<open>unquantize\<close> and \<open>isInRange\<close> behave on doubles as
  they do on the reals.
\<close>

lemma computeScale64_zero: "computeScale64 (Fin 0) = Fin 0"
  by (simp add: computeScale64_def)

lemma unquantize64_zero_scale: "unquantize64 q origin (Fin 0) = origin"
  by (simp add: unquantize64_def)

lemma isInRange64_Fin: "isInRange64 (Fin q) = (0 \<le> q \<and> q < 65536)"
  by (auto simp add: isInRange64_def fge_def rangeScale64_def)

lemma max_min_is_clamp:
  assumes "v \<noteq> NaN"
  shows "Math_max64 (Fin 0) (Math_min64 rangeScale64 v) = clamp64 (Fin 0) (Fin 65535) v"
  using assms
  by (cases v) (auto simp add: Math_max64_def Math_min64_def clamp64_def rangeScale64_def)

lemma clamp64_cases:
  assumes "v \<noteq> NaN"
  shows "\<exists>a. clamp64 (Fin 0) (Fin 65535) v = Fin a \<and> 0 \<le> a \<and> a \<le> 65535"
proof (cases v)
  case (Fin x)
  then show ?thesis by (cases "x < 0"; cases "65535 < x") (simp_all add: clamp64_def)
qed (use assms in \<open>simp_all add: clamp64_def\<close>)

lemma isQuantized64_int:
  assumes "0 \<le> n" "n \<le> 65535"
  shows "isQuantized64 (Fin (of_int n))"
  using assms by (auto simp add: isQuantized64_def isInRange64_def fge_def rangeScale64_def)

lemma fadd_Fin_NaN_iff [simp]: "fadd (Fin a) x = NaN \<longleftrightarrow> x = NaN"
  by (cases x) simp_all

lemma product_NaN_iff:
  "fadd (Fin (1 / 2)) (fmul (fsub (Fin pos) (Fin origin)) (Fin scale)) = NaN \<longleftrightarrow>
     scale = 0 \<and> is_infinite (fsub (Fin pos) (Fin origin))"
  by (cases "round64 (pos - origin)")
     (auto simp add: is_infinite_def signed_inf_def sgn_real_def)

lemma quantize64_Fin_in_range:
  assumes "fadd (Fin (1 / 2)) (fmul (fsub pos origin) scale) = Fin v" "0 \<le> v" "v \<le> 65535"
  shows "quantize64 pos origin scale = Fin (of_int \<lfloor>v\<rfloor>)"
  using assms by (simp add: quantize64_def Math_max64_def Math_min64_def rangeScale64_def)

text \<open>
  Claim C1, as amended. For finite \<open>pos\<close>, \<open>origin\<close> and \<open>scale\<close>, unless \<open>pos - origin\<close>
  overflows to an infinity while \<open>scale\<close> is \<open>0\<close>, \<open>quantize\<close> returns the floor of the
  clamp into \<open>[0, 65535]\<close> of the double \<open>0.5 + (pos - origin) * scale\<close>, each operation
  rounded to the nearest double: an integer of that interval, saturated and never
  wrapped. By \<open>product_NaN_iff\<close> the excluded case is the only one in which that double
  is NaN.
\<close>

theorem quantize64_floor_of_clamp:
  assumes "scale = 0 \<longrightarrow> \<not> is_infinite (fsub (Fin pos) (Fin origin))"
  shows "quantize64 (Fin pos) (Fin origin) (Fin scale) =
           Math_floor64 (clamp64 (Fin 0) (Fin 65535)
             (fadd (Fin (1 / 2)) (fmul (fsub (Fin pos) (Fin origin)) (Fin scale)))) \<and>
         isQuantized64 (quantize64 (Fin pos) (Fin origin) (Fin scale)) \<and>
         fge (quantize64 (Fin pos) (Fin origin) (Fin scale)) (Fin 0) \<and>
         fge (Fin 65535) (quantize64 (Fin pos) (Fin origin) (Fin scale))"
proof -
  let ?v = "fadd (Fin (1 / 2)) (fmul (fsub (Fin pos) (Fin origin)) (Fin scale))"
  have v: "?v \<noteq> NaN" using assms by (simp only: product_NaN_iff) blast
  have q: "quantize64 (Fin pos) (Fin origin) (Fin scale) =
             Math_floor64 (clamp64 (Fin 0) (Fin 65535) ?v)"
    unfolding quantize64_def by (simp only: max_min_is_clamp [OF v])
  from clamp64_cases [OF v]
  obtain a where a: "clamp64 (Fin 0) (Fin 65535) ?v = Fin a" "0 \<le> a" "a \<le> 65535"
    by blast
  have "0 \<le> \<lfloor>a\<rfloor>" using a(2) by simp
  moreover have "\<lfloor>a\<rfloor> \<le> 65535" using a(3) by (simp add: floor_le_iff)
  ultimately have "isQuantized64 (Fin (of_int \<lfloor>a\<rfloor>))"
    and "fge (Fin (of_int \<lfloor>a\<rfloor>)) (Fin 0)" and "fge (Fin 65535) (Fin (of_int \<lfloor>a\<rfloor>))"
    by (simp_all add: isQuantized64_int fge_def le_less)
  then show ?thesis using q a(1) by simp
qed

text \<open>
  With scale \<open>0\<close> the position \<open>5\<close> over the origin \<open>1\<close> is quantized to \<open>0\<close>; with the
  scale \<open>6553.5\<close> of the range \<open>[0, 10]\<close> the position \<open>5\<close> is quantized to \<open>32768\<close>.
\<close>

theorem quantize64_floor_of_clamp_witness:
  "\<not> is_infinite (fsub (Fin 5) (Fin 1)) \<and>
   quantize64 (Fin 5) (Fin 1) (Fin 0) = Fin 0 \<and>
   isQuantized64 (quantize64 (Fin 5) (Fin 1) (Fin 0)) \<and>
   quantize64 (Fin 5) (Fin 0) (Fin (13107 / 2)) = Fin 32768 \<and>
   isQuantized64 (quantize64 (Fin 5) (Fin 0) (Fin (13107 / 2)))"
proof -
  have h: "\<not> is_infinite (fsub (Fin 5) (Fin 1))" by (simp add: is_infinite_def)
  then have h0: "(0::real) = 0 \<longrightarrow> \<not> is_infinite (fsub (Fin 5) (Fin 1))" by simp
  have h1: "(13107 / 2 :: real) = 0 \<longrightarrow> \<not> is_infinite (fsub (Fin 5) (Fin 0))" by simp
  note w0 = quantize64_floor_of_clamp [OF h0]
  note w1 = quantize64_floor_of_clamp [OF h1]
  have "fadd (Fin (1 / 2)) (fmul (fsub (Fin 5) (Fin 1)) (Fin 0)) = Fin (1 / 2)" by simp
  then have "quantize64 (Fin 5) (Fin 1) (Fin 0) = Fin (of_int \<lfloor>1 / 2 :: real\<rfloor>)"
    by (rule quantize64_Fin_in_range) simp_all
  then have e0: "quantize64 (Fin 5) (Fin 1) (Fin 0) = Fin 0" by simp
  have "(5::real) * (13107 / 2) = 65535 / 2" "(1::real) / 2 + 65535 / 2 = 32768" by simp_all
  then have "fadd (Fin (1 / 2)) (fmul (fsub (Fin 5) (Fin 0)) (Fin (13107 / 2))) = Fin 32768"
    by simp
  then have "quantize64 (Fin 5) (Fin 0) (Fin (13107 / 2)) = Fin (of_int \<lfloor>32768 :: real\<rfloor>)"
    by (rule quantize64_Fin_in_range) simp_all
  then have e1: "quantize64 (Fin 5) (Fin 0) (Fin (13107 / 2)) = Fin 32768" by simp
  show ?thesis using h e0 e1 w0 w1 by blast
qed

text \<open>
  Claim C1 as stated fails on doubles in two ways. The sum \<open>0.5 + (0.5 - 2 ^ -54)\<close> is a
  tie that rounds to \<open>1\<close>, so \<open>quantize (0.5 - 2 ^ -54, 0, 1)\<close> is \<open>1\<close> where the exact
  formula gives \<open>0\<close>. And \<open>2 ^ 1023 - (- 2 ^ 1023)\<close> overflows to infinity, whose product
  with the scale \<open>0\<close> is NaN, so \<open>quantize (2 ^ 1023, - 2 ^ 1023, 0)\<close> is NaN.
\<close>

theorem quantize64_rounds_or_is_NaN:
  "is_double (1 / 2 - 1 / 2 ^ 54) \<and>
   quantize64 (Fin (1 / 2 - 1 / 2 ^ 54)) (Fin 0) (Fin 1) = Fin 1 \<and>
   quantize_spec (1 / 2 - 1 / 2 ^ 54) 0 1 = 0 \<and>
   is_double (2 ^ 1023) \<and> is_double (- (2 ^ 1023)) \<and>
   quantize64 (Fin (2 ^ 1023)) (Fin (- (2 ^ 1023))) (Fin 0) = NaN"
proof -
  define a :: real where "a = 1 / 2 - 1 / 2 ^ 54"
  have ra: "round64 a = Fin a" using a_def by (rule round64_below_half)
  have "1 / 2 + a = 1 - 1 / 2 ^ 54" by (simp add: a_def)
  then have "round64 (1 / 2 + a) = Fin 1" by (rule round64_tie_to_one)
  then have "fadd (Fin (1 / 2)) (fmul (fsub (Fin a) (Fin 0)) (Fin 1)) = Fin 1"
    by (simp add: ra)
  then have "quantize64 (Fin a) (Fin 0) (Fin 1) = Fin (of_int \<lfloor>1::real\<rfloor>)"
    by (rule quantize64_Fin_in_range) simp_all
  then have qa: "quantize64 (Fin a) (Fin 0) (Fin 1) = Fin 1" by simp
  have "0 \<le> 1 / 2 + a" "1 / 2 + a < 1" by (simp_all add: a_def)
  then have "\<lfloor>1 / 2 + a\<rfloor> = 0" by linarith
  then have sa: "quantize_spec a 0 1 = 0"
    using \<open>0 \<le> 1 / 2 + a\<close> \<open>1 / 2 + a < 1\<close> by (simp add: quantize_spec_def clamp_spec_def)
  define b :: real where "b = 2 ^ 1023"
  have rb: "round64 b = Fin b"
    unfolding b_def by (rule round64_exact [where m = 1 and k = 1023]) simp_all
  have rnb: "round64 (- b) = Fin (- b)"
    unfolding b_def by (rule round64_exact [where m = "- 1" and k = 1023]) simp_all
  have "(2::real) ^ 1024 \<le> b - - b" by (simp add: b_def)
  then have "round64 (b - - b) = PInf" by (rule round64_overflow)
  then have "fsub (Fin b) (Fin (- b)) = PInf" by (simp only: fsub_Fin)
  then have qb: "quantize64 (Fin b) (Fin (- b)) (Fin 0) = NaN"
    by (simp add: quantize64_def signed_inf_def Math_max64_def Math_min64_def)
  have "is_double a \<and> quantize64 (Fin a) (Fin 0) (Fin 1) = Fin 1 \<and> quantize_spec a 0 1 = 0 \<and>
        is_double b \<and> is_double (- b) \<and> quantize64 (Fin b) (Fin (- b)) (Fin 0) = NaN"
    using ra qa sa rb rnb qb by (simp only: is_double_def simp_thms)
  then show ?thesis unfolding a_def b_def .
qed

lemma computeScale64_at_least_0:
  assumes "at_least e 0"
  shows "at_least (computeScale64 e) 0"
proof -
  consider "e = PInf" | y where "e = Fin y" "0 \<le> y"
    using assms by (auto simp: at_least_def)
  then show ?thesis
  proof cases
    case 1
    then show ?thesis by (simp add: computeScale64_def rangeScale64_def at_least_def)
  next
    case 2
    show ?thesis
    proof (cases "y = 0")
      case True
      then show ?thesis using 2 by (simp add: computeScale64_def at_least_def)
    next
      case False
      then have "0 \<le> 65535 / y" using 2 by simp
      then have "at_least (round64 (65535 / y)) 0" by (rule round64_at_least_0)
      then show ?thesis using 2 False by (simp add: computeScale64_def rangeScale64_def)
    qed
  qed
qed

lemma fmul_nonpos_nonneg:
  assumes "at_most d 0" "at_least s 0" "fmul d s \<noteq> NaN"
  shows "at_most (fmul d s) 0"
proof -
  consider (inf_inf) "d = NInf" "s = PInf" | (inf_fin) z where "d = NInf" "s = Fin z" "0 \<le> z"
    | (fin_inf) y where "d = Fin y" "y \<le> 0" "s = PInf"
    | (fin_fin) y z where "d = Fin y" "y \<le> 0" "s = Fin z" "0 \<le> z"
    using assms(1,2) by (auto simp: at_most_def at_least_def)
  then show ?thesis
  proof cases
    case inf_inf
    then show ?thesis by (simp add: signed_inf_def at_most_def)
  next
    case inf_fin
    then have "z \<noteq> 0" using assms(3) by (auto simp: signed_inf_def)
    then show ?thesis using inf_fin by (simp add: signed_inf_def at_most_def)
  next
    case fin_inf
    then have "y \<noteq> 0" using assms(3) by (auto simp: signed_inf_def)
    then show ?thesis using fin_inf by (simp add: signed_inf_def at_most_def)
  next
    case fin_fin
    then have "y * z \<le> 0" by (simp add: mult_nonpos_nonneg)
    then show ?thesis using fin_fin by (simp add: round64_at_most_0)
  qed
qed

lemma quantize64_of_at_most_half:
  assumes "at_most t (1 / 2)"
  shows "Math_floor64 (Math_max64 (Fin 0) (Math_min64 rangeScale64 t)) = Fin 0"
proof -
  consider "t = NInf" | u where "t = Fin u" "u \<le> 1 / 2"
    using assms by (auto simp: at_most_def)
  then show ?thesis
  proof cases
    case 1
    then show ?thesis by (simp add: Math_max64_def Math_min64_def rangeScale64_def)
  next
    case 2
    then have "0 < u \<Longrightarrow> \<lfloor>u\<rfloor> = 0" by linarith
    then show ?thesis using 2 by (auto simp add: Math_max64_def Math_min64_def rangeScale64_def)
  qed
qed

lemma quantize64_of_at_least_65535:
  assumes "at_least t 65535"
  shows "Math_floor64 (Math_max64 (Fin 0) (Math_min64 rangeScale64 t)) = Fin 65535"
proof -
  consider "t = PInf" | u where "t = Fin u" "65535 \<le> u"
    using assms by (auto simp: at_least_def)
  then show ?thesis
    by cases (auto simp add: Math_max64_def Math_min64_def rangeScale64_def)
qed

lemma fadd_half_at_most:
  assumes "at_most p 0"
  shows "at_most (fadd (Fin (1 / 2)) p) (1 / 2)"
proof -
  consider "p = NInf" | w where "p = Fin w" "w \<le> 0"
    using assms by (auto simp: at_most_def)
  then show ?thesis
  proof cases
    case 1
    then show ?thesis by (simp add: at_most_def)
  next
    case 2
    then have "1 / 2 + w \<le> 1 / 2" by simp
    then have "at_most (round64 (1 / 2 + w)) (1 / 2)"
      by (rule round64_at_most) simp_all
    then show ?thesis using 2 by simp
  qed
qed

lemma fadd_half_at_least:
  assumes "at_least p (131069 / 2)"
  shows "at_least (fadd (Fin (1 / 2)) p) 65535"
proof -
  consider "p = PInf" | w where "p = Fin w" "131069 / 2 \<le> w"
    using assms by (auto simp: at_least_def)
  then show ?thesis
  proof cases
    case 1
    then show ?thesis by (simp add: at_least_def)
  next
    case 2
    then have "65535 \<le> 1 / 2 + w" by simp
    then have "at_least (round64 (1 / 2 + w)) 65535"
      by (rule round64_at_least) simp_all
    then show ?thesis using 2 by simp
  qed
qed

lemma fmul_at_least_pos:
  assumes "at_least d a" "0 < a" "at_least s b" "0 < b" "c \<le> a * b" "0 \<le> c" "round_grid c = c"
  shows "at_least (fmul d s) c"
proof -
  consider (inf_inf) "d = PInf" "s = PInf" | (inf_fin) z where "d = PInf" "s = Fin z" "b \<le> z"
    | (fin_inf) y where "d = Fin y" "a \<le> y" "s = PInf"
    | (fin_fin) y z where "d = Fin y" "a \<le> y" "s = Fin z" "b \<le> z"
    using assms(1,3) by (auto simp: at_least_def)
  then show ?thesis
  proof cases
    case inf_inf
    then show ?thesis by (simp add: signed_inf_def at_least_def)
  next
    case inf_fin
    then have "0 < z" using assms(4) by simp
    then show ?thesis using inf_fin by (simp add: signed_inf_def at_least_def)
  next
    case fin_inf
    then have "0 < y" using assms(2) by simp
    then show ?thesis using fin_inf by (simp add: signed_inf_def at_least_def)
  next
    case fin_fin
    have "a * b \<le> y * z"
      using fin_fin(2,4) assms(2,4) by (intro mult_mono) simp_all
    then have "c \<le> y * z" using assms(5) by simp
    then have "at_least (round64 (y * z)) c"
      using assms(6,7) by (rule round64_at_least)
    then show ?thesis using fin_fin by simp
  qed
qed

lemma clamp_below:
  assumes "lo \<le> hi" "pos < lo"
    and "fmul (fsub (Fin pos) (Fin lo)) (computeScale64 (fsub (Fin hi) (Fin lo))) \<noteq> NaN"
  shows "quantize64 (Fin pos) (Fin lo) (computeScale64 (fsub (Fin hi) (Fin lo))) = Fin 0"
proof -
  let ?s = "computeScale64 (fsub (Fin hi) (Fin lo))"
  have d: "at_most (fsub (Fin pos) (Fin lo)) 0"
    using assms(2) by (simp add: round64_at_most_0)
  have "at_least (fsub (Fin hi) (Fin lo)) 0"
    using assms(1) by (simp add: round64_at_least_0)
  then have s: "at_least ?s 0" by (rule computeScale64_at_least_0)
  have "at_most (fmul (fsub (Fin pos) (Fin lo)) ?s) 0"
    using d s assms(3) by (rule fmul_nonpos_nonneg)
  then have "at_most (fadd (Fin (1 / 2)) (fmul (fsub (Fin pos) (Fin lo)) ?s)) (1 / 2)"
    by (rule fadd_half_at_most)
  then show ?thesis
    unfolding quantize64_def by (rule quantize64_of_at_most_half)
qed

lemma clamp_above:
  assumes "hi < pos" "computeScale64 (fsub (Fin hi) (Fin lo)) \<noteq> Fin 0" "lo \<le> hi"
  shows "quantize64 (Fin pos) (Fin lo) (computeScale64 (fsub (Fin hi) (Fin lo))) = Fin 65535"
proof -
  let ?s = "computeScale64 (fsub (Fin hi) (Fin lo))"
  have e0: "at_least (round64 (hi - lo)) 0"
    using assms(3) by (simp add: round64_at_least_0)
  have ne_inf: "round64 (hi - lo) \<noteq> PInf"
    using assms(2) by (auto simp add: computeScale64_def rangeScale64_def)
  have ne_0: "round64 (hi - lo) \<noteq> Fin 0"
    using assms(2) by (auto simp add: computeScale64_def)
  obtain y where y: "round64 (hi - lo) = Fin y" "0 < y"
    using e0 ne_inf ne_0 by (auto simp add: at_least_def less_le)
  have yg: "y = round_grid (hi - lo)" and ylt: "y < 2 ^ 1024"
    using y(1) by (simp_all add: round64_Fin_iff)
  have s_eq: "?s = round64 (65535 / y)"
    using y by (simp add: computeScale64_def rangeScale64_def)
  \<comment> \<open>the quotient is a normal number, so its rounding loses at most one part in \<open>2^53\<close>\<close>
  have "2 powi (- 1022) * y \<le> 2 powi (- 1022) * 2 powi 1024"
    using ylt by (intro mult_left_mono) simp_all
  also have "\<dots> = (2::real) powi 2" by (simp flip: power_int_add)
  also have "\<dots> \<le> 65535" by simp
  finally have norm: "2 powi (- 1022) \<le> 65535 / y"
    using y(2) by (simp add: pos_le_divide_eq)
  define b where "b = 65535 / y * (1 - 2 powi (- 53))"
  have b_le: "b \<le> round_grid (65535 / y)"
    unfolding b_def using norm by (rule round_grid_rel)
  have "(0::real) < 1 - 2 powi (- 53)" by (simp add: power_int_minus_divide)
  then have b_pos: "0 < b" using y(2) by (simp add: b_def)
  have s: "at_least ?s b"
    unfolding s_eq by (rule round64_at_least_grid [OF b_le]) (use b_pos in simp)
  \<comment> \<open>the difference \<open>pos - low\<close> is at least the extent, after rounding too\<close>
  have "round_grid (hi - lo) \<le> round_grid (pos - lo)"
    using assms(1,3) by (intro round_grid_mono_pos) simp_all
  then have y_le: "y \<le> round_grid (pos - lo)" by (simp add: yg)
  then have "at_least (round64 (pos - lo)) y"
    by (rule round64_at_least_grid) (use y(2) in simp)
  then have d: "at_least (fsub (Fin pos) (Fin lo)) y" by simp
  have "y * b = 65535 * (1 - 2 powi (- 53))"
    using y(2) by (simp add: b_def)
  also have "\<dots> = 65535 - 65535 / 2 ^ 53" by (simp add: power_int_minus_divide algebra_simps)
  finally have yb: "y * b = 65535 - 65535 / 2 ^ 53" .
  have "(65535::real) / 2 ^ 53 \<le> 1 / 2" by simp
  then have "131069 / 2 \<le> y * b" using yb by simp
  then have "at_least (fmul (fsub (Fin pos) (Fin lo)) ?s) (131069 / 2)"
    using d y(2) s b_pos by (intro fmul_at_least_pos [where a = y and b = b]) simp_all
  then have "at_least (fadd (Fin (1 / 2)) (fmul (fsub (Fin pos) (Fin lo)) ?s)) 65535"
    by (rule fadd_half_at_least)
  then show ?thesis
    unfolding quantize64_def by (rule quantize64_of_at_least_65535)
qed

lemma quantize64_null_record:
  assumes "is_double pos"
  shows "quantize64 (Fin pos) (Fin 0) (Fin 0) = Fin 0"
proof -
  have "fadd (Fin (1 / 2)) (fmul (fsub (Fin pos) (Fin 0)) (Fin 0)) = Fin (1 / 2)"
    using assms by (simp add: is_double_def)
  then have "quantize64 (Fin pos) (Fin 0) (Fin 0) = Fin (of_int \<lfloor>1 / 2 :: real\<rfloor>)"
    by (rule quantize64_Fin_in_range) simp_all
  then show ?thesis by simp
qed

text \<open>
  Claim C7, as amended. Clamp law on doubles, for the record built from a range with
  \<open>low \<le> high\<close> on the axis: a position below the low bound is quantized to \<open>0\<close>, unless
  the product \<open>(pos - low) * scale\<close> is NaN (an overflow of \<open>pos - low\<close> meeting the scale
  \<open>0\<close>); a position above the high bound is quantized to \<open>65535\<close> when the scale of the
  axis is not \<open>0\<close>, that is when \<open>low < high\<close> and \<open>high - low\<close> does not overflow; and
  under the record of a null range, origin and scale \<open>0\<close>, every double is quantized to
  \<open>0\<close>.
\<close>

theorem clamp_law_binary64:
  assumes "lo \<le> hi" "pos_below < lo" "hi < pos_above" "is_double pos_any"
    and "fmul (fsub (Fin pos_below) (Fin lo)) (computeScale64 (fsub (Fin hi) (Fin lo))) \<noteq> NaN"
  shows "quantize64 (Fin pos_below) (Fin lo) (computeScale64 (fsub (Fin hi) (Fin lo))) = Fin 0 \<and>
         (computeScale64 (fsub (Fin hi) (Fin lo)) \<noteq> Fin 0 \<longrightarrow>
            quantize64 (Fin pos_above) (Fin lo) (computeScale64 (fsub (Fin hi) (Fin lo)))
              = Fin 65535) \<and>
         quantize64 (Fin pos_any) (Fin 0) (Fin 0) = Fin 0"
  using clamp_below [OF assms(1,2,5)] clamp_above [OF assms(3) _ assms(1)]
    quantize64_null_record [OF assms(4)]
  by blast

text \<open>
  For the range \<open>[0, 65535]\<close> the scale is \<open>1\<close>; the position \<open>-50\<close> gives \<open>0\<close> and
  \<open>70000\<close> gives \<open>65535\<close>.
\<close>

theorem clamp_law_binary64_witness:
  "(0::real) \<le> 65535 \<and> (- 50::real) < 0 \<and> (65535::real) < 70000 \<and> is_double 7 \<and>
   computeScale64 (fsub (Fin 65535) (Fin 0)) = Fin 1 \<and>
   fmul (fsub (Fin (- 50)) (Fin 0)) (computeScale64 (fsub (Fin 65535) (Fin 0))) = Fin (- 50) \<and>
   quantize64 (Fin (- 50)) (Fin 0) (computeScale64 (fsub (Fin 65535) (Fin 0))) = Fin 0 \<and>
   quantize64 (Fin 70000) (Fin 0) (computeScale64 (fsub (Fin 65535) (Fin 0))) = Fin 65535 \<and>
   quantize64 (Fin 7) (Fin 0) (Fin 0) = Fin 0"
proof -
  have h1: "(0::real) \<le> 65535" and h2: "(- 50::real) < 0" and h3: "(65535::real) < 70000"
    by simp_all
  have h4: "is_double 7" by (simp add: is_double_def)
  have s: "computeScale64 (fsub (Fin 65535) (Fin 0)) = Fin 1"
    by (simp add: computeScale64_def rangeScale64_def)
  have p: "fmul (fsub (Fin (- 50)) (Fin 0)) (computeScale64 (fsub (Fin 65535) (Fin 0))) = Fin (- 50)"
    unfolding s by simp
  then have h5: "fmul (fsub (Fin (- 50)) (Fin 0)) (computeScale64 (fsub (Fin 65535) (Fin 0))) \<noteq> NaN"
    by simp
  have h6: "computeScale64 (fsub (Fin 65535) (Fin 0)) \<noteq> Fin 0"
    unfolding s by simp
  note w = clamp_law_binary64 [OF h1 h2 h3 h4 h5]
  show ?thesis using h1 h2 h3 h4 s p h6 w by blast
qed

text \<open>
  Claim C7 as stated fails on an axis of zero extent: the range \<open>[1, 1]\<close> gives the
  scale \<open>0\<close>, and the position \<open>2\<close>, above the high bound, is quantized to \<open>0\<close>, not to
  \<open>65535\<close>.
\<close>

theorem clamp_law_fails_on_zero_extent64:
  "(1::real) \<le> 1 \<and> (1::real) < 2 \<and> is_double 1 \<and> is_double 2 \<and>
   computeScale64 (fsub (Fin 1) (Fin 1)) = Fin 0 \<and>
   quantize64 (Fin 2) (Fin 1) (computeScale64 (fsub (Fin 1) (Fin 1))) = Fin 0 \<and>
   quantize64 (Fin 2) (Fin 1) (computeScale64 (fsub (Fin 1) (Fin 1))) \<noteq> Fin 65535"
proof -
  have s: "computeScale64 (fsub (Fin 1) (Fin 1)) = Fin 0"
    by (simp add: computeScale64_def)
  have "fadd (Fin (1 / 2)) (fmul (fsub (Fin 2) (Fin 1)) (Fin 0)) = Fin (1 / 2)" by simp
  then have "quantize64 (Fin 2) (Fin 1) (Fin 0) = Fin (of_int \<lfloor>1 / 2 :: real\<rfloor>)"
    by (rule quantize64_Fin_in_range) simp_all
  then have q: "quantize64 (Fin 2) (Fin 1) (Fin 0) = Fin 0" by simp
  show ?thesis unfolding s q by (simp add: is_double_def)
qed

text \<open>
  Claim C4 fails in the code at a range of tiny extent. For the range \<open>[0, 2 ^ -1020]\<close>
  the quotient \<open>65535 / 2 ^ -1020\<close> overflows and the scale is infinity, which is
  positive. The position \<open>2 ^ -1020\<close>, the high bound, is quantized to \<open>65535\<close> and
  dequantized to \<open>0 + 65535 / infinity = 0\<close>: the error is \<open>2 ^ -1020\<close>, the bound
  \<open>1 / scale\<close> is \<open>0\<close>. The position \<open>0\<close>, the low bound, is quantized to NaN.
\<close>

theorem roundtrip_fails_on_tiny_extent:
  "is_double (1 / 2 ^ 1020) \<and>
   computeScale64 (fsub (Fin (1 / 2 ^ 1020)) (Fin 0)) = PInf \<and>
   flt (Fin 0) (computeScale64 (fsub (Fin (1 / 2 ^ 1020)) (Fin 0))) \<and>
   quantize64 (Fin (1 / 2 ^ 1020)) (Fin 0) PInf = Fin 65535 \<and>
   unquantize64 (Fin 65535) (Fin 0) PInf = Fin 0 \<and>
   fsub (Fin 0) (Fin (1 / 2 ^ 1020)) = Fin (- (1 / 2 ^ 1020)) \<and>
   fdiv (Fin 1) PInf = Fin 0 \<and>
   \<not> \<bar>- (1 / 2 ^ 1020)\<bar> \<le> (0::real) \<and>
   quantize64 (Fin 0) (Fin 0) PInf = NaN \<and>
   unquantize64 NaN (Fin 0) PInf = NaN"
proof -
  define t :: real where "t = 1 / 2 ^ 1020"
  have rt: "round64 t = Fin t" unfolding t_def by (rule round64_tiny)
  have tpos: "0 < t" by (simp add: t_def)
  have "(2::real) ^ 1024 \<le> 65535 * 2 ^ 1020"
  proof -
    have "(2::real) ^ 1024 = 16 * 2 ^ 1020" by simp
    then show ?thesis by simp
  qed
  also have "65535 * (2::real) ^ 1020 = 65535 / t" by (simp add: t_def)
  finally have "round64 (65535 / t) = PInf" by (rule round64_overflow)
  then have s: "computeScale64 (fsub (Fin t) (Fin 0)) = PInf"
    using tpos by (simp add: computeScale64_def rangeScale64_def rt)
  have q: "quantize64 (Fin t) (Fin 0) PInf = Fin 65535"
    using tpos by (simp add: quantize64_def rt signed_inf_def Math_max64_def Math_min64_def
          rangeScale64_def)
  have u: "unquantize64 (Fin 65535) (Fin 0) PInf = Fin 0"
    by (simp add: unquantize64_def)
  have "round64 (- t) = Fin (- t)"
    unfolding t_def
    by (rule round64_exact [where m = "- 1" and k = "- 1020"])
       (simp_all add: power_int_minus_divide)
  then have d: "fsub (Fin 0) (Fin t) = Fin (- t)" by simp
  have n: "quantize64 (Fin 0) (Fin 0) PInf = NaN"
    by (simp add: quantize64_def signed_inf_def Math_max64_def Math_min64_def)
  have un: "unquantize64 NaN (Fin 0) PInf = NaN" by (simp add: unquantize64_def)
  have "is_double t \<and> computeScale64 (fsub (Fin t) (Fin 0)) = PInf \<and>
        flt (Fin 0) (computeScale64 (fsub (Fin t) (Fin 0))) \<and>
        quantize64 (Fin t) (Fin 0) PInf = Fin 65535 \<and>
        unquantize64 (Fin 65535) (Fin 0) PInf = Fin 0 \<and>
        fsub (Fin 0) (Fin t) = Fin (- t) \<and> fdiv (Fin 1) PInf = Fin 0 \<and>
        \<not> \<bar>- t\<bar> \<le> (0::real) \<and> quantize64 (Fin 0) (Fin 0) PInf = NaN \<and>
        unquantize64 NaN (Fin 0) PInf = NaN"
    using rt s q u d n un tpos by (simp add: is_double_def)
  then show ?thesis unfolding t_def .
qed

text \<open>
  Claim C2 fails in the code on the same range. \<open>create\<close> of the point \<open>(0, 0)\<close> under
  the record built from the range \<open>[0, 2 ^ -1020] \<times> [0, 2 ^ -1020]\<close> hands NaN to the
  setter of \<open>x\<close>, whose assertion fires; with assertions compiled out the point stores
  NaN on both axes.
\<close>

theorem create_asserts_on_tiny_extent:
  "is_double (1 / 2 ^ 1020) \<and>
   QParams2d_fromRange64
     \<lparr>low64 = \<lparr>x64 = Fin 0, y64 = Fin 0\<rparr>,
      high64 = \<lparr>x64 = Fin (1 / 2 ^ 1020), y64 = Fin (1 / 2 ^ 1020)\<rparr>, isNull64 = False\<rparr> None =
     \<lparr>origin64 = \<lparr>x64 = Fin 0, y64 = Fin 0\<rparr>, scale64 = \<lparr>x64 = PInf, y64 = PInf\<rparr>\<rparr> \<and>
   quantize64 (Fin 0) (Fin 0) PInf = NaN \<and> \<not> isQuantized64 NaN \<and>
   QPoint2d_create64 True \<lparr>x64 = Fin 0, y64 = Fin 0\<rparr>
     \<lparr>origin64 = \<lparr>x64 = Fin 0, y64 = Fin 0\<rparr>, scale64 = \<lparr>x64 = PInf, y64 = PInf\<rparr>\<rparr> =
     Inl AssertionFailed \<and>
   QPoint2d_create64 False \<lparr>x64 = Fin 0, y64 = Fin 0\<rparr>
     \<lparr>origin64 = \<lparr>x64 = Fin 0, y64 = Fin 0\<rparr>, scale64 = \<lparr>x64 = PInf, y64 = PInf\<rparr>\<rparr> =
     Inr \<lparr>qx64 = NaN, qy64 = NaN\<rparr>"
proof -
  define t :: real where "t = 1 / 2 ^ 1020"
  have rt: "round64 t = Fin t" unfolding t_def by (rule round64_tiny)
  have tpos: "0 < t" by (simp add: t_def)
  have "(2::real) ^ 1024 \<le> 65535 * 2 ^ 1020"
  proof -
    have "(2::real) ^ 1024 = 16 * 2 ^ 1020" by simp
    then show ?thesis by simp
  qed
  also have "65535 * (2::real) ^ 1020 = 65535 / t" by (simp add: t_def)
  finally have "round64 (65535 / t) = PInf" by (rule round64_overflow)
  then have s: "computeScale64 (Fin t) = PInf"
    using tpos by (simp add: computeScale64_def rangeScale64_def)
  have p: "QParams2d_fromRange64
     \<lparr>low64 = \<lparr>x64 = Fin 0, y64 = Fin 0\<rparr>, high64 = \<lparr>x64 = Fin t, y64 = Fin t\<rparr>,
      isNull64 = False\<rparr> None =
     \<lparr>origin64 = \<lparr>x64 = Fin 0, y64 = Fin 0\<rparr>, scale64 = \<lparr>x64 = PInf, y64 = PInf\<rparr>\<rparr>"
    by (simp add: QParams2d_fromRange64_def QParams2d_setFromRange64_def QParams2d_setFrom64_def
          QParams2d_new64_def rt s)
  have n: "quantize64 (Fin 0) (Fin 0) PInf = NaN"
    by (simp add: quantize64_def signed_inf_def Math_max64_def Math_min64_def)
  have nq: "\<not> isQuantized64 NaN" by (simp add: isQuantized64_def)
  have c1: "QPoint2d_create64 True \<lparr>x64 = Fin 0, y64 = Fin 0\<rparr>
     \<lparr>origin64 = \<lparr>x64 = Fin 0, y64 = Fin 0\<rparr>, scale64 = \<lparr>x64 = PInf, y64 = PInf\<rparr>\<rparr> =
     Inl AssertionFailed"
    by (simp add: QPoint2d_create64_def QPoint2d_init64_def QPoint2d_set_x64_def n nq
          assert_def andThen_def)
  have c2: "QPoint2d_create64 False \<lparr>x64 = Fin 0, y64 = Fin 0\<rparr>
     \<lparr>origin64 = \<lparr>x64 = Fin 0, y64 = Fin 0\<rparr>, scale64 = \<lparr>x64 = PInf, y64 = PInf\<rparr>\<rparr> =
     Inr \<lparr>qx64 = NaN, qy64 = NaN\<rparr>"
    by (simp add: QPoint2d_create64_def QPoint2d_init64_def QPoint2d_set_x64_def
          QPoint2d_set_y64_def QPoint2d_new64_def n assert_def andThen_def)
  have "is_double t \<and>
   QParams2d_fromRange64
     \<lparr>low64 = \<lparr>x64 = Fin 0, y64 = Fin 0\<rparr>,
      high64 = \<lparr>x64 = Fin t, y64 = Fin t\<rparr>, isNull64 = False\<rparr> None =
     \<lparr>origin64 = \<lparr>x64 = Fin 0, y64 = Fin 0\<rparr>, scale64 = \<lparr>x64 = PInf, y64 = PInf\<rparr>\<rparr> \<and>
   quantize64 (Fin 0) (Fin 0) PInf = NaN \<and> \<not> isQuantized64 NaN \<and>
   QPoint2d_create64 True \<lparr>x64 = Fin 0, y64 = Fin 0\<rparr>
     \<lparr>origin64 = \<lparr>x64 = Fin 0, y64 = Fin 0\<rparr>, scale64 = \<lparr>x64 = PInf, y64 = PInf\<rparr>\<rparr> =
     Inl AssertionFailed \<and>
   QPoint2d_create64 False \<lparr>x64 = Fin 0, y64 = Fin 0\<rparr>
     \<lparr>origin64 = \<lparr>x64 = Fin 0, y64 = Fin 0\<rparr>, scale64 = \<lparr>x64 = PInf, y64 = PInf\<rparr>\<rparr> =
     Inr \<lparr>qx64 = NaN, qy64 = NaN\<rparr>"
    using rt p n nq c1 c2 by (simp only: is_double_def simp_thms)
  then show ?thesis unfolding t_def .
qed

lemma isQuantized64_65535: "isQuantized64 (Fin 65535)"
  by (simp add: isQuantized64_int [of 65535, simplified])

lemma quantize64_PInf_above:
  assumes "round64 (pos - origin) = Fin d" "0 < d"
  shows "quantize64 (Fin pos) (Fin origin) PInf = Fin 65535"
  using assms
  by (simp add: quantize64_def signed_inf_def Math_max64_def Math_min64_def rangeScale64_def)

text \<open>
  Claim C5 fails in the code on the same range, for a point appended by \<open>add\<close>. The
  list of the record built from \<open>[0, 2 ^ -1020] \<times> [0, 2 ^ -1020]\<close> quantizes the point
  \<open>(2 ^ -1020, 2 ^ -1020)\<close> to \<open>(65535, 65535)\<close>. \<open>requantize\<close> with the same record
  dequantizes it to \<open>(0, 0)\<close> and quantizes that to NaN: the assertion of the setter fires,
  and with assertions compiled out the stored point becomes \<open>(NaN, NaN)\<close>.
\<close>

theorem requantize_same_record_fails_on_tiny_extent:
  "is_double (1 / 2 ^ 1020) \<and>
   QParams2d_fromRange64
     \<lparr>low64 = \<lparr>x64 = Fin 0, y64 = Fin 0\<rparr>,
      high64 = \<lparr>x64 = Fin (1 / 2 ^ 1020), y64 = Fin (1 / 2 ^ 1020)\<rparr>, isNull64 = False\<rparr> None =
     \<lparr>origin64 = \<lparr>x64 = Fin 0, y64 = Fin 0\<rparr>, scale64 = \<lparr>x64 = PInf, y64 = PInf\<rparr>\<rparr> \<and>
   QPoint2dList_add64 True \<lparr>x64 = Fin (1 / 2 ^ 1020), y64 = Fin (1 / 2 ^ 1020)\<rparr>
     (QPoint2dList_new64
        \<lparr>origin64 = \<lparr>x64 = Fin 0, y64 = Fin 0\<rparr>, scale64 = \<lparr>x64 = PInf, y64 = PInf\<rparr>\<rparr>) =
     Inr \<lparr>params64 = \<lparr>origin64 = \<lparr>x64 = Fin 0, y64 = Fin 0\<rparr>,
                        scale64 = \<lparr>x64 = PInf, y64 = PInf\<rparr>\<rparr>,
          list64 = [\<lparr>qx64 = Fin 65535, qy64 = Fin 65535\<rparr>]\<rparr> \<and>
   QPoint2dList_requantize64 True
     \<lparr>origin64 = \<lparr>x64 = Fin 0, y64 = Fin 0\<rparr>, scale64 = \<lparr>x64 = PInf, y64 = PInf\<rparr>\<rparr>
     \<lparr>params64 = \<lparr>origin64 = \<lparr>x64 = Fin 0, y64 = Fin 0\<rparr>,
                   scale64 = \<lparr>x64 = PInf, y64 = PInf\<rparr>\<rparr>,
      list64 = [\<lparr>qx64 = Fin 65535, qy64 = Fin 65535\<rparr>]\<rparr> = Inl AssertionFailed \<and>
   QPoint2dList_requantize64 False
     \<lparr>origin64 = \<lparr>x64 = Fin 0, y64 = Fin 0\<rparr>, scale64 = \<lparr>x64 = PInf, y64 = PInf\<rparr>\<rparr>
     \<lparr>params64 = \<lparr>origin64 = \<lparr>x64 = Fin 0, y64 = Fin 0\<rparr>,
                   scale64 = \<lparr>x64 = PInf, y64 = PInf\<rparr>\<rparr>,
      list64 = [\<lparr>qx64 = Fin 65535, qy64 = Fin 65535\<rparr>]\<rparr> =
     Inr \<lparr>params64 = \<lparr>origin64 = \<lparr>x64 = Fin 0, y64 = Fin 0\<rparr>,
                        scale64 = \<lparr>x64 = PInf, y64 = PInf\<rparr>\<rparr>,
          list64 = [\<lparr>qx64 = NaN, qy64 = NaN\<rparr>]\<rparr>"
proof -
  define t :: real where "t = 1 / 2 ^ 1020"
  define P where "P = \<lparr>origin64 = \<lparr>x64 = Fin 0, y64 = Fin 0\<rparr>, scale64 = \<lparr>x64 = PInf, y64 = PInf\<rparr>\<rparr>"
  define l where "l = \<lparr>params64 = P, list64 = [\<lparr>qx64 = Fin 65535, qy64 = Fin 65535\<rparr>]\<rparr>"
  have rt: "round64 t = Fin t" unfolding t_def by (rule round64_tiny)
  have tpos: "0 < t" by (simp add: t_def)
  have "(2::real) ^ 1024 \<le> 65535 * 2 ^ 1020"
  proof -
    have "(2::real) ^ 1024 = 16 * 2 ^ 1020" by simp
    then show ?thesis by simp
  qed
  also have "65535 * (2::real) ^ 1020 = 65535 / t" by (simp add: t_def)
  finally have "round64 (65535 / t) = PInf" by (rule round64_overflow)
  then have s: "computeScale64 (Fin t) = PInf"
    using tpos by (simp add: computeScale64_def rangeScale64_def)
  have p: "QParams2d_fromRange64
     \<lparr>low64 = \<lparr>x64 = Fin 0, y64 = Fin 0\<rparr>, high64 = \<lparr>x64 = Fin t, y64 = Fin t\<rparr>,
      isNull64 = False\<rparr> None = P"
    by (simp add: QParams2d_fromRange64_def QParams2d_setFromRange64_def QParams2d_setFrom64_def
          QParams2d_new64_def rt s P_def)
  have q: "quantize64 (Fin t) (Fin 0) PInf = Fin 65535"
    by (rule quantize64_PInf_above [where d = t]) (simp_all add: rt tpos)
  have new: "QPoint2dList_new64 P = \<lparr>params64 = P, list64 = []\<rparr>"
    by (simp add: QPoint2dList_new64_def QParams2d_clone64_def QParams2d_copyFrom64_def
          QParams2d_setFrom64_def QParams2d_new64_def P_def)
  have add: "QPoint2dList_add64 True \<lparr>x64 = Fin t, y64 = Fin t\<rparr> (QPoint2dList_new64 P) = Inr l"
    unfolding new
    by (simp add: QPoint2dList_add64_def QPoint2d_create64_def QPoint2d_init64_def
          QPoint2d_set_x64_def QPoint2d_set_y64_def QPoint2d_new64_def P_def q
          isQuantized64_65535 assert_def andThen_def l_def)
  have u: "unquantize64 (Fin 65535) (Fin 0) PInf = Fin 0"
    by (simp add: unquantize64_def)
  have n: "quantize64 (Fin 0) (Fin 0) PInf = NaN"
    by (simp add: quantize64_def signed_inf_def Math_max64_def Math_min64_def)
  have nq: "\<not> isQuantized64 NaN" by (simp add: isQuantized64_def)
  have unq: "QPoint2dList_unquantize64 chk 0 None l = Inr (\<lparr>x64 = Fin 0, y64 = Fin 0\<rparr>, l)" for chk
    by (simp add: QPoint2dList_unquantize64_def QPoint2dList_length64_def l_def P_def
          QPoint2d_unquantize64_def Point2d_new64_def u assert_def andThen_def)
  have len: "QPoint2dList_length64 l = 1" by (simp add: QPoint2dList_length64_def l_def)
  have r1: "QPoint2dList_requantize64 True P l = Inl AssertionFailed"
    unfolding QPoint2dList_requantize64_def
    by (subst QPoint2dList_requantize_loop64.simps)
       (simp add: len unq [of True, simplified] QPoint2d_init64_def QPoint2d_set_x64_def P_def n nq
          assert_def andThen_def)
  have i2: "QPoint2d_init64 False \<lparr>x64 = Fin 0, y64 = Fin 0\<rparr> P (list64 l ! 0) =
            Inr \<lparr>qx64 = NaN, qy64 = NaN\<rparr>"
    by (simp add: QPoint2d_init64_def QPoint2d_set_x64_def QPoint2d_set_y64_def P_def n
          assert_def andThen_def l_def)
  have r2: "QPoint2dList_requantize64 False P l =
            Inr \<lparr>params64 = P, list64 = [\<lparr>qx64 = NaN, qy64 = NaN\<rparr>]\<rparr>"
    unfolding QPoint2dList_requantize64_def
    apply (subst QPoint2dList_requantize_loop64.simps)
    apply (simp add: len unq [of False, simplified] i2)
    apply (subst QPoint2dList_requantize_loop64.simps)
    apply (simp add: QPoint2dList_length64_def l_def andThen_def QParams2d_copyFrom64_def
          QParams2d_setFrom64_def P_def)
    done
  have "is_double t \<and>
   QParams2d_fromRange64
     \<lparr>low64 = \<lparr>x64 = Fin 0, y64 = Fin 0\<rparr>,
      high64 = \<lparr>x64 = Fin t, y64 = Fin t\<rparr>, isNull64 = False\<rparr> None = P \<and>
   QPoint2dList_add64 True \<lparr>x64 = Fin t, y64 = Fin t\<rparr> (QPoint2dList_new64 P) = Inr l \<and>
   QPoint2dList_requantize64 True P l = Inl AssertionFailed \<and>
   QPoint2dList_requantize64 False P l =
     Inr \<lparr>params64 = P, list64 = [\<lparr>qx64 = NaN, qy64 = NaN\<rparr>]\<rparr>"
    using rt p add r1 r2 by (simp only: is_double_def simp_thms)
  then show ?thesis unfolding t_def l_def P_def .
qed

end
